theory Spec2Isabelle
  imports Main "HOL-Library.Multiset"
begin

section \<open>bad\_video\_cleaner.py: the parallel video check and the deletion it gates\<close>

text \<open>
  The development embeds \<^verbatim>\<open>vlc_can_play\<close>, \<^verbatim>\<open>check_video\<close> and \<^verbatim>\<open>scan_videos\<close> of
  \<^verbatim>\<open>src/bad_video_cleaner.py\<close>. Everything the Python does to the outside (the cvlc
  subprocess, the pool's completion order, the log file, standard output, \<^verbatim>\<open>os.remove\<close>)
  is explicit: the host and the pool's schedule are arguments, the file system and the
  output are fields of a state that is passed along and returned.

  What the model takes from the environment rather than from the source: the list of
  files that the directory walk of line 48 yields; what cvlc does on each file; the order
  in which the pool's tasks complete. What it assumes: cvlc changes no file, the log file
  can be opened for writing, and nothing else touches the file system during the run.
  The progress bar and the half second of sleep have no part in it.
\<close>

subsection \<open>Strings\<close>

type_synonym path = string

abbreviation TAB :: char where "TAB \<equiv> CHR 0x09"
abbreviation NL :: char where "NL \<equiv> CHR 0x0A"
abbreviation CR :: char where "CR \<equiv> CHR 0x0D"
abbreviation QUOTE :: char where "QUOTE \<equiv> CHR 0x27"

text \<open>
  A Python string is a list of characters here, one \<open>char\<close> for each code point, so the
  strings of the model are those of code points below 256.

  \<^verbatim>\<open>str.isspace\<close> on the code points below 256: the ASCII white space 9 to 13 and 32, the
  separators 28 to 31, and 133 and 160.
\<close>

definition isspace :: "char \<Rightarrow> bool" where
  "isspace c = ((of_char c :: nat) \<in> {9, 10, 11, 12, 13, 28, 29, 30, 31, 32, 133, 160})"

text \<open>\<^verbatim>\<open>str.strip()\<close>: leading and trailing white space removed.\<close>

definition strip :: "string \<Rightarrow> string" where
  "strip s = rev (dropWhile isspace (rev (dropWhile isspace s)))"

text \<open>
  The newline translation that a pipe opened with \<^verbatim>\<open>text=True\<close> applies to what it has
  decoded, \<^verbatim>\<open>data.replace("\r\n", "\n").replace("\r", "\n")\<close>: a carriage return with the
  line feed after it, and a carriage return alone, each become one line feed.
\<close>

fun translate_newlines :: "string \<Rightarrow> string" where
  "translate_newlines [] = []"
| "translate_newlines [c] = (if c = CR then [NL] else [c])"
| "translate_newlines (c # d # cs) =
     (if c = CR \<and> d = NL then NL # translate_newlines cs
      else if c = CR then NL # translate_newlines (d # cs)
      else c # translate_newlines (d # cs))"

text \<open>\<^verbatim>\<open>str(n)\<close> for the integers an f-string formats.\<close>

definition digit :: "nat \<Rightarrow> char" where
  "digit d = char_of (48 + d)"

fun str_nat :: "nat \<Rightarrow> string" where
  "str_nat n = (if n < 10 then [digit n] else str_nat (n div 10) @ [digit (n mod 10)])"

declare str_nat.simps [simp del]

definition str_int :: "int \<Rightarrow> string" where
  "str_int i = (if i < 0 then CHR ''-'' # str_nat (nat (- i)) else str_nat (nat i))"

subsection \<open>Exceptions\<close>

text \<open>
  The exceptions that matter to the control flow. \<open>ValueError\<close> is what
  \<^verbatim>\<open>multiprocessing.Pool\<close> raises for a process count below one; \<open>TimeoutExpired\<close> and
  \<open>FileNotFoundError\<close> are the two that \<^verbatim>\<open>vlc_can_play\<close> catches; \<open>OtherError\<close> is any
  other exception, with the name of its class.
\<close>

datatype exn = ValueError string | TimeoutExpired | FileNotFoundError | OtherError string

subsection \<open>The host: what running cvlc on a file does\<close>

text \<open>
  What a process has written to one of its two captured pipes, seen through the strict
  decoder of the host's encoding that \<^verbatim>\<open>text=True\<close> puts on the pipe: \<open>Text t\<close> when the
  bytes decode, to the characters \<open>t\<close> (before any newline translation); \<open>Undecodable\<close>
  when they do not, as with a byte 0xFF under UTF-8.
\<close>

datatype captured = Text string | Undecodable

text \<open>
  \<open>Exits d rc out err\<close>: the cvlc process ends by itself after \<open>d\<close> seconds with return
  code \<open>rc\<close>, having written \<open>out\<close> to its standard output and \<open>err\<close> to its standard
  error. \<open>Hangs\<close>: it never ends by itself. \<open>Breaks e\<close>: starting it fails with an
  exception other than \<open>FileNotFoundError\<close> (a \<^verbatim>\<open>PermissionError\<close> when cvlc is found but
  may not be executed, an \<^verbatim>\<open>OSError\<close> when the system cannot create the pipes or another
  process).

  \<open>remove_error\<close> is the text of the \<^verbatim>\<open>OSError\<close> that \<^verbatim>\<open>os.remove\<close> raises on a path
  when it fails there (the host's message for the error and the quoted name).
\<close>

datatype cvlc_run = Exits nat int captured captured | Hangs | Breaks string

record host =
  cvlc_on_path :: bool
  cvlc :: "path \<Rightarrow> cvlc_run"
  remove_error :: "path \<Rightarrow> string"

text \<open>
  \<^verbatim>\<open>subprocess.run(["cvlc", ...], capture_output=True, text=True, timeout=timeout)\<close>,
  after the contract of the standard library: a missing executable raises
  \<open>FileNotFoundError\<close> before any process exists; a process that has not ended when the
  timeout expires is killed and \<open>TimeoutExpired\<close> is raised, its output not being decoded.
  When the process has ended in time, both captured outputs are decoded, strictly, before
  anything is returned: if either does not decode, \<^verbatim>\<open>UnicodeDecodeError\<close> is raised,
  whatever the return code; otherwise the completed process is returned with its return
  code and its standard error, decoded and with the newlines translated (the standard
  output is decoded as well; the source never reads it). Besides the outcome the report
  says how long the call took and whether the child was killed.
\<close>

record completed =
  returncode :: int
  stderr :: string

record run_report =
  outcome :: "exn + completed"
  elapsed :: nat
  spawned :: bool
  killed :: bool

definition subprocess_run :: "host \<Rightarrow> path \<Rightarrow> nat \<Rightarrow> run_report" where
  "subprocess_run h p timeout =
     (if \<not> cvlc_on_path h
      then \<lparr>outcome = Inl FileNotFoundError, elapsed = 0, spawned = False, killed = False\<rparr>
      else case cvlc h p of
        Breaks e \<Rightarrow>
          \<lparr>outcome = Inl (OtherError e), elapsed = 0, spawned = False, killed = False\<rparr>
      | Hangs \<Rightarrow>
          \<lparr>outcome = Inl TimeoutExpired, elapsed = timeout, spawned = True, killed = True\<rparr>
      | Exits d rc out err \<Rightarrow>
          if d \<le> timeout
          then (case (out, err) of
                  (Text t_out, Text t_err) \<Rightarrow>
                    \<lparr>outcome = Inr \<lparr>returncode = rc, stderr = translate_newlines t_err\<rparr>,
                      elapsed = d, spawned = True, killed = False\<rparr>
                | _ \<Rightarrow>
                    \<lparr>outcome = Inl (OtherError ''UnicodeDecodeError''), elapsed = d,
                      spawned = True, killed = False\<rparr>)
          else \<lparr>outcome = Inl TimeoutExpired, elapsed = timeout, spawned = True,
                 killed = True\<rparr>)"

subsection \<open>vlc\_can\_play and check\_video\<close>

definition cvlc_not_found :: string where
  "cvlc_not_found =
     ''cvlc not found, please install VLC and ensure '' @ [QUOTE] @ ''cvlc'' @ [QUOTE] @
     '' is in PATH''"

text \<open>
  The result is \<open>Inr (playable, reason)\<close> when the function returns and \<open>Inl e\<close> when
  exception \<open>e\<close> leaves it: only the two \<^verbatim>\<open>except\<close> clauses of the source turn an
  exception into a result.
\<close>

definition vlc_can_play :: "host \<Rightarrow> path \<Rightarrow> nat \<Rightarrow> exn + (bool \<times> string)" where
  "vlc_can_play h p timeout =
     (case outcome (subprocess_run h p timeout) of
        Inr result \<Rightarrow>
          if returncode result \<noteq> 0 then Inr (False, strip (stderr result))
          else Inr (True, ''ok'')
      | Inl TimeoutExpired \<Rightarrow> Inr (False, ''timeout expired'')
      | Inl FileNotFoundError \<Rightarrow> Inr (False, cvlc_not_found)
      | Inl e \<Rightarrow> Inl e)"

text \<open>\<^verbatim>\<open>check_video\<close> calls \<^verbatim>\<open>vlc_can_play\<close> with its default timeout of 30 seconds.\<close>

definition check_video :: "host \<Rightarrow> path \<Rightarrow> exn + (path \<times> bool \<times> string)" where
  "check_video h p =
     (case vlc_can_play h p 30 of
        Inl e \<Rightarrow> Inl e
      | Inr (playable, reason) \<Rightarrow> Inr (p, \<not> playable, reason))"

subsection \<open>The pool\<close>

text \<open>
  \<^verbatim>\<open>Pool(workers).imap_unordered(check_video, files)\<close> hands the tasks out in list
  order, one at a time, to whichever worker is free, and yields each result as soon as it
  is there. So the tasks in flight are the first \<open>W\<close> of those not yet completed, and the
  next one to complete is any of them. The schedule \<open>sched\<close> makes that choice: its
  \<open>k\<close>-th number picks, modulo the number of tasks in flight, the task that completes
  \<open>k\<close>-th (the first in flight once the schedule is used up).
\<close>

definition drop_index :: "nat \<Rightarrow> 'a list \<Rightarrow> 'a list" where
  "drop_index i xs = take i xs @ drop (Suc i) xs"

function completion_order :: "nat \<Rightarrow> nat list \<Rightarrow> 'a list \<Rightarrow> 'a list" where
  "completion_order W sched xs =
     (if W = 0 \<or> xs = [] then []
      else let i = (case sched of [] \<Rightarrow> 0 | k # _ \<Rightarrow> k mod min W (length xs))
           in xs ! i # completion_order W (tl sched) (drop_index i xs))"
  by pat_completeness auto
termination
proof (relation "measure (\<lambda>(W, sched, xs). length xs)")
  show "wf (measure (\<lambda>(W, sched, xs). length xs))"
    by simp
next
  fix W :: nat and sched :: "nat list" and xs :: "'a list" and i
  assume live: "\<not> (W = 0 \<or> xs = [])"
    and i: "i = (case sched of [] \<Rightarrow> 0 | k # _ \<Rightarrow> k mod min W (length xs))"
  from live have "0 < min W (length xs)"
    by simp
  with i have "i < length xs"
    by (cases sched) (simp_all add: less_le_trans [OF mod_less_divisor])
  then show "((W, tl sched, drop_index i xs), (W, sched, xs))
      \<in> measure (\<lambda>(W, sched, xs). length xs)"
    by (simp add: drop_index_def)
qed

declare completion_order.simps [simp del]

definition imap_unordered :: "nat \<Rightarrow> nat list \<Rightarrow> ('a \<Rightarrow> 'b) \<Rightarrow> 'a list \<Rightarrow> 'b list" where
  "imap_unordered W sched f xs = map f (completion_order W sched xs)"

subsection \<open>The state of a run\<close>

text \<open>
  \<open>fs\<close> maps each path of a regular file to its content; \<open>stdout\<close> holds the strings
  printed, \<open>log\<close> the strings written to the open log file, \<open>removes\<close> the paths handed to
  \<^verbatim>\<open>os.remove\<close>, each in order; \<open>good\<close> and \<open>corrupted\<close> are the two lists of the source.
\<close>

record state =
  fs :: "path \<rightharpoonup> string"
  stdout :: "string list"
  log :: "string list"
  good :: "path list"
  corrupted :: "path list"
  removes :: "path list"

definition print :: "string \<Rightarrow> state \<Rightarrow> state" where
  "print s st = st\<lparr>stdout := stdout st @ [s]\<rparr>"

definition corrupt_line :: "string \<Rightarrow> path \<Rightarrow> string" where
  "corrupt_line reason p = ''CORRUPT'' @ [TAB] @ reason @ [TAB] @ p @ [NL]"

definition ok_line :: "path \<Rightarrow> string" where
  "ok_line p = ''OK'' @ [TAB] @ p @ [NL]"

text \<open>The body of the loop over the results (lines 66 to 73).\<close>

definition record_result :: "path \<times> bool \<times> string \<Rightarrow> state \<Rightarrow> state" where
  "record_result r st =
     (case r of (p, is_corrupt, reason) \<Rightarrow>
        if is_corrupt then
          (let st1 = print (corrupt_line reason p) st;
               st2 = st1\<lparr>corrupted := corrupted st1 @ [p]\<rparr>
           in st2\<lparr>log := log st2 @ [corrupt_line reason p]\<rparr>)
        else
          (let st1 = st\<lparr>good := good st @ [p]\<rparr>;
               st2 = st1\<lparr>log := log st1 @ [ok_line p]\<rparr>
           in print (ok_line p) st2))"

text \<open>
  The loop itself: a task that raised in its worker raises again in the parent when its
  turn in the completion order comes, and that ends the loop.
\<close>

fun for_results :: "(exn + path \<times> bool \<times> string) list \<Rightarrow> state \<Rightarrow> exn option \<times> state" where
  "for_results [] st = (None, st)"
| "for_results (Inl e # rs) st = (Some e, st)"
| "for_results (Inr r # rs) st = for_results rs (record_result r st)"

subsection \<open>Deletion\<close>

text \<open>
  \<^verbatim>\<open>os.remove\<close>: the call is noted in \<open>removes\<close>; it fails on a path that is no file and on
  one of the paths the host refuses to remove (\<open>locked\<close>), and then gives back the text of
  the \<^verbatim>\<open>OSError\<close>, which is the host's.
\<close>

definition os_remove :: "host \<Rightarrow> path set \<Rightarrow> path \<Rightarrow> state \<Rightarrow> string option \<times> state" where
  "os_remove h locked p st =
     (let st1 = st\<lparr>removes := removes st @ [p]\<rparr>
      in if fs st1 p = None \<or> p \<in> locked
         then (Some (remove_error h p), st1)
         else (None, st1\<lparr>fs := (fs st1)(p := None)\<rparr>))"

text \<open>The loop of lines 82 to 87: a failed removal is printed and the loop goes on.\<close>

fun delete_loop :: "host \<Rightarrow> path set \<Rightarrow> path list \<Rightarrow> state \<Rightarrow> state" where
  "delete_loop h locked [] st = st"
| "delete_loop h locked (file # rest) st =
     (case os_remove h locked file st of
        (None, st1) \<Rightarrow> delete_loop h locked rest (print (''Deleted: '' @ file) st1)
      | (Some e, st1) \<Rightarrow>
          delete_loop h locked rest (print (''Could not delete '' @ file @ '': '' @ e) st1))"

subsection \<open>scan\_videos\<close>

text \<open>
  \<open>files\<close> is the list that line 48 collects from the directory. \<open>fs0\<close> is the file
  system when the run starts, \<open>locked\<close> the paths whose removal the host refuses. The
  result is the exception that left the function, if any, and the final state.
  \<^verbatim>\<open>Pool(workers)\<close> raises \<open>ValueError\<close> for a count below one, before the log is opened;
  leaving the \<^verbatim>\<open>with\<close> block, by the end of the loop or by an exception, closes the log.
\<close>

definition scan_videos ::
  "host \<Rightarrow> nat list \<Rightarrow> path set \<Rightarrow> (path \<rightharpoonup> string) \<Rightarrow> path list \<Rightarrow> int \<Rightarrow> bool \<Rightarrow> path
    \<Rightarrow> exn option \<times> state" where
  "scan_videos h sched locked fs0 files workers dry_run log_path =
     (let st0 = \<lparr>fs = fs0, stdout = [], log = [], good = [], corrupted = [], removes = []\<rparr>
      in if files = [] then (None, print ''No video files found.'' st0)
      else
        let st1 = print (''Scanning '' @ str_nat (length files) @ '' video files using '' @
                    str_int workers @ '' workers...'') st0
        in if workers < 1
           then (Some (ValueError ''Number of processes must be at least 1''), st1)
           else
             let st2 = st1\<lparr>fs := (fs st1)(log_path \<mapsto> [])\<rparr>;
                 (err, st3) =
                   for_results (imap_unordered (nat workers) sched (check_video h) files) st2;
                 st4 = st3\<lparr>fs := (fs st3)(log_path \<mapsto> concat (log st3))\<rparr>
             in case err of
                  Some e \<Rightarrow> (Some e, st4)
                | None \<Rightarrow>
                    let st5 = print (NL # ''=== Scan Complete ==='') st4;
                        st6 = print (''Good videos:     '' @ str_nat (length (good st5))) st5;
                        st7 = print (''Corrupted videos: '' @ str_nat (length (corrupted st6))) st6;
                        st8 = print (''Log written to:   '' @ log_path) st7;
                        st9 = (if corrupted st8 \<noteq> [] \<and> \<not> dry_run
                               then delete_loop h locked (corrupted st8)
                                      (print (NL # ''Deleting corrupted files...'') st8)
                               else st8)
                    in (None, if dry_run
                              then print (NL # ''Dry run mode: No files deleted.'') st9
                              else st9))"

subsection \<open>Notions the properties are stated with\<close>

text \<open>
  The results the parent loop handles before the first one that raises, and the exception
  that ends the loop, if any.
\<close>

fun consumed :: "(exn + 'a) list \<Rightarrow> 'a list" where
  "consumed [] = []"
| "consumed (Inl e # rs) = []"
| "consumed (Inr r # rs) = r # consumed rs"

fun first_error :: "(exn + 'a) list \<Rightarrow> exn option" where
  "first_error [] = None"
| "first_error (Inl e # rs) = Some e"
| "first_error (Inr r # rs) = first_error rs"

text \<open>The results of a run's tasks, in the order in which the parent receives them.\<close>

definition arrivals :: "host \<Rightarrow> nat list \<Rightarrow> path list \<Rightarrow> int \<Rightarrow> (exn + path \<times> bool \<times> string) list" where
  "arrivals h sched files workers = imap_unordered (nat workers) sched (check_video h) files"

text \<open>The record that the loop writes to the log for one result.\<close>

definition log_line :: "path \<times> bool \<times> string \<Rightarrow> string" where
  "log_line r = (case r of (p, is_corrupt, reason) \<Rightarrow>
     if is_corrupt then corrupt_line reason p else ok_line p)"

text \<open>The probe of \<open>p\<close> ends with an exception that \<^verbatim>\<open>vlc_can_play\<close> does not catch.\<close>

definition probe_raises :: "host \<Rightarrow> path \<Rightarrow> bool" where
  "probe_raises h p = (case check_video h p of Inl e \<Rightarrow> True | Inr r \<Rightarrow> False)"

text \<open>The verdict on \<open>p\<close>, for a probe that returns: is the file corrupt?\<close>

definition is_corrupt_file :: "host \<Rightarrow> path \<Rightarrow> bool" where
  "is_corrupt_file h p = (case check_video h p of Inl e \<Rightarrow> False | Inr r \<Rightarrow> fst (snd r))"

text \<open>The log record of \<open>p\<close>, for a probe that returns.\<close>

definition record_of :: "host \<Rightarrow> path \<Rightarrow> string" where
  "record_of h p = (case check_video h p of Inl e \<Rightarrow> [] | Inr r \<Rightarrow> log_line r)"

text \<open>
  The files that a run classifies: those whose results the parent receives before the
  result of a task that raised.
\<close>

definition classified :: "host \<Rightarrow> nat list \<Rightarrow> path list \<Rightarrow> int \<Rightarrow> path list" where
  "classified h sched files workers =
     takeWhile (\<lambda>p. \<not> probe_raises h p) (completion_order (nat workers) sched files)"

text \<open>A cvlc process that is started and has not ended after \<open>t\<close> seconds.\<close>

fun overruns :: "cvlc_run \<Rightarrow> nat \<Rightarrow> bool" where
  "overruns Hangs t = True"
| "overruns (Exits d rc out err) t = (t < d)"
| "overruns (Breaks e) t = False"

text \<open>
  Hosts for the examples: on \<open>demo_host\<close>, cvlc plays \<^verbatim>\<open>a.mp4\<close> in three seconds, fails on
  \<^verbatim>\<open>b.mp4\<close> with a diagnostic line and return code 1, and hangs on every other file;
  \<open>bare_host\<close> has no cvlc; on \<open>faulty_host\<close> cvlc is found but starting it on \<^verbatim>\<open>a.mp4\<close>
  raises an \<^verbatim>\<open>OSError\<close>, while every other file plays.
\<close>

definition demo_remove_error :: "path \<Rightarrow> string" where
  "demo_remove_error p = ''[Errno 2] No such file or directory: '' @ [QUOTE] @ p @ [QUOTE]"

definition demo_host :: host where
  "demo_host = \<lparr>cvlc_on_path = True,
     cvlc = (\<lambda>p. if p = ''a.mp4'' then Exits 3 0 (Text []) (Text [])
                else if p = ''b.mp4'' then Exits 1 1 (Text []) (Text (''decoder error'' @ [NL]))
                else Hangs),
     remove_error = demo_remove_error\<rparr>"

definition bare_host :: host where
  "bare_host = \<lparr>cvlc_on_path = False, cvlc = (\<lambda>p. Exits 3 0 (Text []) (Text [])),
     remove_error = demo_remove_error\<rparr>"

definition faulty_host :: host where
  "faulty_host = \<lparr>cvlc_on_path = True,
     cvlc = (\<lambda>p. if p = ''a.mp4'' then Breaks ''OSError''
                else Exits 3 0 (Text []) (Text [])),
     remove_error = demo_remove_error\<rparr>"

text \<open>
  On \<open>windows_host\<close> cvlc fails on every file after two seconds with two lines that end
  in carriage return and line feed; on \<open>garbled_host\<close> it fails after two seconds and
  what it wrote to its standard error does not decode.
\<close>

definition windows_host :: host where
  "windows_host = \<lparr>cvlc_on_path = True,
     cvlc = (\<lambda>p. Exits 2 1 (Text [])
       (Text (''line one'' @ [CR, NL] @ ''line two'' @ [CR, NL]))),
     remove_error = demo_remove_error\<rparr>"

definition garbled_host :: host where
  "garbled_host = \<lparr>cvlc_on_path = True, cvlc = (\<lambda>p. Exits 2 1 (Text []) Undecodable),
     remove_error = demo_remove_error\<rparr>"

definition demo_fs :: "path \<rightharpoonup> string" where
  "demo_fs = [''a.mp4'' \<mapsto> ''AAAA'', ''b.mp4'' \<mapsto> ''BBBB'', ''c.mp4'' \<mapsto> ''CCCC'',
              ''video_scan.log'' \<mapsto> ''old log'']"

text \<open>
  Runs for the examples. \<open>demo_run\<close>: three files, two workers, deletion switched on;
  \<^verbatim>\<open>b.mp4\<close> completes first, then \<^verbatim>\<open>a.mp4\<close>, then \<^verbatim>\<open>c.mp4\<close>. \<open>demo_dry_run\<close> is the same
  run with \<^verbatim>\<open>dry_run\<close> set.
\<close>

definition demo_run :: "exn option \<times> state" where
  "demo_run = scan_videos demo_host [1, 0, 0] {} demo_fs
     [''a.mp4'', ''b.mp4'', ''c.mp4''] 2 False ''video_scan.log''"

definition demo_dry_run :: "exn option \<times> state" where
  "demo_dry_run = scan_videos demo_host [1, 0, 0] {} demo_fs
     [''a.mp4'', ''b.mp4'', ''c.mp4''] 2 True ''video_scan.log''"

section \<open>Properties\<close>

subsection \<open>The pool yields every task once\<close>

lemma mset_drop_index:
  "i < length xs \<Longrightarrow> add_mset (xs ! i) (mset (drop_index i xs)) = mset xs"
proof -
  assume i: "i < length xs"
  then have "xs = take i xs @ xs ! i # drop (Suc i) xs"
    by (rule id_take_nth_drop)
  then have "mset xs = mset (take i xs @ xs ! i # drop (Suc i) xs)"
    by simp
  then show ?thesis
    by (simp add: drop_index_def)
qed

lemma pick_in_range:
  "0 < W \<Longrightarrow> xs \<noteq> [] \<Longrightarrow>
    (case sched of [] \<Rightarrow> 0 | k # _ \<Rightarrow> k mod min W (length xs)) < length xs"
  by (cases sched) (simp_all add: less_le_trans [OF mod_less_divisor])

lemma mset_completion_order:
  "0 < W \<Longrightarrow> mset (completion_order W sched xs) = mset xs"
proof (induction W sched xs rule: completion_order.induct)
  case (1 W sched xs)
  show ?case
  proof (cases "xs = []")
    case True
    then show ?thesis
      by (simp add: completion_order.simps)
  next
    case False
    define i where "i = (case sched of [] \<Rightarrow> 0 | k # _ \<Rightarrow> k mod min W (length xs))"
    from "1.prems" False have i: "i < length xs"
      unfolding i_def by (rule pick_in_range)
    from "1.prems" False have "completion_order W sched xs
        = xs ! i # completion_order W (tl sched) (drop_index i xs)"
      by (subst completion_order.simps) (simp add: i_def Let_def)
    moreover from "1.IH" [OF _ i_def "1.prems"] "1.prems" False
    have "mset (completion_order W (tl sched) (drop_index i xs)) = mset (drop_index i xs)"
      by simp
    ultimately show ?thesis
      using mset_drop_index [OF i] by simp
  qed
qed

lemma completion_order_no_workers: "completion_order 0 sched xs = []"
  by (simp add: completion_order.simps)

lemma completion_order_Nil: "completion_order W sched [] = []"
  by (simp add: completion_order.simps)

lemma set_completion_order: "set (completion_order W sched xs) \<subseteq> set xs"
proof (cases "W = 0")
  case True
  then show ?thesis by (simp add: completion_order_no_workers)
next
  case False
  then have "mset (completion_order W sched xs) = mset xs"
    by (simp add: mset_completion_order)
  then have "set (completion_order W sched xs) = set xs"
    by (rule mset_eq_setD)
  then show ?thesis by simp
qed

text \<open>With one worker the results arrive in submission order, whatever the schedule.\<close>

lemma completion_order_sequential: "completion_order (Suc 0) sched xs = xs"
proof (induction xs arbitrary: sched)
  case Nil
  then show ?case by (simp add: completion_order.simps)
next
  case (Cons x xs)
  have "(case sched of [] \<Rightarrow> 0 | k # _ \<Rightarrow> k mod min (Suc 0) (length (x # xs))) = 0"
    by (cases sched) simp_all
  then have "completion_order (Suc 0) sched (x # xs)
      = x # completion_order (Suc 0) (tl sched) xs"
    by (subst completion_order.simps) (simp add: drop_index_def)
  with Cons.IH show ?case by simp
qed

lemma completion_order_step:
  assumes "0 < W" and "i < min W (length xs)"
  shows "completion_order W (i # sched) xs = xs ! i # completion_order W sched (drop_index i xs)"
proof -
  from assms have "xs \<noteq> []" and "i mod min W (length xs) = i"
    by auto
  with assms(1) show ?thesis
    by (subst completion_order.simps) simp
qed

text \<open>
  Every order of the tasks is the completion order of some schedule, once there are as
  many workers as tasks: the schedules leave no order out.
\<close>

lemma completion_order_any:
  "mset ys = mset xs \<Longrightarrow> length xs \<le> W \<Longrightarrow> \<exists>sched. completion_order W sched xs = ys"
proof (induction ys arbitrary: xs)
  case Nil
  then have "xs = []"
    by simp
  then show ?case
    by (simp add: completion_order_Nil)
next
  case (Cons y ys)
  from Cons.prems(1) have "y \<in> set xs"
    by (metis list.set_intros(1) mset_eq_setD)
  then obtain i where i: "i < length xs" and y: "xs ! i = y"
    by (auto simp add: in_set_conv_nth)
  from mset_drop_index [OF i] y Cons.prems(1)
  have "add_mset y (mset ys) = add_mset y (mset (drop_index i xs))"
    by simp
  then have rest: "mset ys = mset (drop_index i xs)"
    by (simp only: add_mset_add_mset_same_iff)
  from i Cons.prems(2) have "length (drop_index i xs) \<le> W"
    by (simp add: drop_index_def)
  from Cons.IH [OF rest this] obtain sched
    where sched: "completion_order W sched (drop_index i xs) = ys"
    by blast
  from i Cons.prems(2) have "0 < W" and "i < min W (length xs)"
    by simp_all
  from completion_order_step [OF this] y sched
  have "completion_order W (i # sched) xs = y # ys"
    by simp
  then show ?case
    by blast
qed

subsection \<open>What the loops do to each field of the state\<close>

lemma print_fields:
  "fs (print s st) = fs st"
  "removes (print s st) = removes st"
  "log (print s st) = log st"
  "good (print s st) = good st"
  "corrupted (print s st) = corrupted st"
  by (simp_all add: print_def)

lemma record_result_fields:
  "fs (record_result r st) = fs st"
  "removes (record_result r st) = removes st"
  "log (record_result r st) = log st @ [log_line r]"
  "stdout (record_result r st) = stdout st @ [log_line r]"
  "good (record_result r st) = good st @ (if fst (snd r) then [] else [fst r])"
  "corrupted (record_result r st) = corrupted st @ (if fst (snd r) then [fst r] else [])"
  by (simp_all add: record_result_def print_def log_line_def Let_def split: prod.splits)

lemma for_results_error: "fst (for_results rs st) = first_error rs"
  by (induction rs st rule: for_results.induct) simp_all

lemma for_results_fs: "fs (snd (for_results rs st)) = fs st"
  by (induction rs st rule: for_results.induct) (simp_all add: record_result_fields)

lemma for_results_removes: "removes (snd (for_results rs st)) = removes st"
  by (induction rs st rule: for_results.induct) (simp_all add: record_result_fields)

lemma for_results_log: "log (snd (for_results rs st)) = log st @ map log_line (consumed rs)"
  by (induction rs st rule: for_results.induct) (simp_all add: record_result_fields)

lemma for_results_good:
  "good (snd (for_results rs st))
    = good st @ map fst (filter (\<lambda>r. \<not> fst (snd r)) (consumed rs))"
  by (induction rs st rule: for_results.induct) (simp_all add: record_result_fields)

lemma for_results_corrupted:
  "corrupted (snd (for_results rs st))
    = corrupted st @ map fst (filter (\<lambda>r. fst (snd r)) (consumed rs))"
  by (induction rs st rule: for_results.induct) (simp_all add: record_result_fields)

lemma os_remove_fields:
  "removes (snd (os_remove h L p st)) = removes st @ [p]"
  "fs (snd (os_remove h L p st)) = (if p \<in> L then fs st else (fs st)(p := None))"
  "log (snd (os_remove h L p st)) = log st"
  "good (snd (os_remove h L p st)) = good st"
  "corrupted (snd (os_remove h L p st)) = corrupted st"
  by (auto simp add: os_remove_def Let_def)

lemma delete_loop_step:
  "delete_loop h L (file # rest) st
    = delete_loop h L rest (print (case fst (os_remove h L file st) of
        None \<Rightarrow> ''Deleted: '' @ file
      | Some e \<Rightarrow> ''Could not delete '' @ file @ '': '' @ e) (snd (os_remove h L file st)))"
  by (simp split: prod.splits option.splits)

lemma delete_loop_removes: "removes (delete_loop h L ps st) = removes st @ ps"
  by (induction ps arbitrary: st)
    (simp_all add: delete_loop_step os_remove_fields print_fields del: delete_loop.simps(2))

lemma delete_loop_fs:
  "fs (delete_loop h L ps st) p = (if p \<in> set ps \<and> p \<notin> L then None else fs st p)"
  by (induction ps arbitrary: st)
    (simp_all add: delete_loop_step os_remove_fields print_fields del: delete_loop.simps(2))

lemma delete_loop_kept:
  "log (delete_loop h L ps st) = log st"
  "good (delete_loop h L ps st) = good st"
  "corrupted (delete_loop h L ps st) = corrupted st"
  by (induction ps arbitrary: st)
    (simp_all add: delete_loop_step os_remove_fields print_fields del: delete_loop.simps(2))

subsection \<open>What subprocess.run reports\<close>

lemma subprocess_run_missing:
  "\<not> cvlc_on_path h \<Longrightarrow>
    subprocess_run h p timeout
      = \<lparr>outcome = Inl FileNotFoundError, elapsed = 0, spawned = False, killed = False\<rparr>"
  by (simp add: subprocess_run_def)

lemma subprocess_run_completed:
  "cvlc_on_path h \<Longrightarrow> cvlc h p = Exits d rc (Text out) (Text err) \<Longrightarrow> d \<le> timeout \<Longrightarrow>
    subprocess_run h p timeout
      = \<lparr>outcome = Inr \<lparr>returncode = rc, stderr = translate_newlines err\<rparr>, elapsed = d,
          spawned = True, killed = False\<rparr>"
  by (simp add: subprocess_run_def)

text \<open>
  When the process ends in time and one of its outputs does not decode, the call raises,
  for every return code, and nothing in \<^verbatim>\<open>vlc_can_play\<close> or \<^verbatim>\<open>check_video\<close> catches it.
\<close>

lemma subprocess_run_undecodable:
  "cvlc_on_path h \<Longrightarrow> cvlc h p = Exits d rc out err \<Longrightarrow> d \<le> timeout \<Longrightarrow>
    out = Undecodable \<or> err = Undecodable \<Longrightarrow>
    subprocess_run h p timeout
      = \<lparr>outcome = Inl (OtherError ''UnicodeDecodeError''), elapsed = d, spawned = True,
          killed = False\<rparr>"
  by (auto simp add: subprocess_run_def split: captured.splits)

lemma vlc_can_play_undecodable:
  "cvlc_on_path h \<Longrightarrow> cvlc h p = Exits d rc out err \<Longrightarrow> d \<le> timeout \<Longrightarrow>
    out = Undecodable \<or> err = Undecodable \<Longrightarrow>
    vlc_can_play h p timeout = Inl (OtherError ''UnicodeDecodeError'')"
  by (simp add: vlc_can_play_def subprocess_run_undecodable)

lemma subprocess_run_overrun:
  "cvlc_on_path h \<Longrightarrow> overruns (cvlc h p) timeout \<Longrightarrow>
    subprocess_run h p timeout
      = \<lparr>outcome = Inl TimeoutExpired, elapsed = timeout, spawned = True, killed = True\<rparr>"
  by (cases "cvlc h p") (simp_all add: subprocess_run_def)

lemma subprocess_run_breaks:
  "cvlc_on_path h \<Longrightarrow> cvlc h p = Breaks e \<Longrightarrow>
    subprocess_run h p timeout
      = \<lparr>outcome = Inl (OtherError e), elapsed = 0, spawned = False, killed = False\<rparr>"
  by (simp add: subprocess_run_def)

lemma subprocess_run_bounded: "elapsed (subprocess_run h p timeout) \<le> timeout"
  by (cases "cvlc h p") (simp_all add: subprocess_run_def split: captured.splits)

subsection \<open>The results that the parent consumes\<close>

lemma check_video_path: "check_video h p = Inr r \<Longrightarrow> fst r = p"
  by (auto simp add: check_video_def split: sum.splits prod.splits)

lemma check_video_cases:
  "(\<exists>e. check_video h p = Inl e \<and> probe_raises h p) \<or>
   (\<exists>reason. check_video h p = Inr (p, is_corrupt_file h p, reason) \<and> \<not> probe_raises h p)"
  by (auto simp add: check_video_def probe_raises_def is_corrupt_file_def
      split: sum.splits prod.splits)

lemma consumed_corrupted:
  "map fst (filter (\<lambda>r. fst (snd r)) (consumed (map (check_video h) ps)))
    = filter (is_corrupt_file h) (takeWhile (\<lambda>p. \<not> probe_raises h p) ps)"
proof (induction ps)
  case Nil
  show ?case by simp
next
  case (Cons p ps)
  from check_video_cases [of h p] Cons.IH show ?case
    by auto
qed

lemma consumed_good:
  "map fst (filter (\<lambda>r. \<not> fst (snd r)) (consumed (map (check_video h) ps)))
    = filter (\<lambda>p. \<not> is_corrupt_file h p) (takeWhile (\<lambda>p. \<not> probe_raises h p) ps)"
proof (induction ps)
  case Nil
  show ?case by simp
next
  case (Cons p ps)
  from check_video_cases [of h p] Cons.IH show ?case
    by auto
qed

lemma consumed_log:
  "map log_line (consumed (map (check_video h) ps))
    = map (record_of h) (takeWhile (\<lambda>p. \<not> probe_raises h p) ps)"
proof (induction ps)
  case Nil
  show ?case by simp
next
  case (Cons p ps)
  from check_video_cases [of h p] Cons.IH show ?case
    by (auto simp add: record_of_def)
qed

lemma first_error_none:
  "first_error (map (check_video h) ps) = None \<longleftrightarrow> (\<forall>p\<in>set ps. \<not> probe_raises h p)"
proof (induction ps)
  case Nil
  show ?case by simp
next
  case (Cons p ps)
  from check_video_cases [of h p] Cons.IH show ?case
    by auto
qed

subsection \<open>The final state of a run\<close>

lemma scan_videos_empty:
  "scan_videos h sched locked fs0 [] workers dry_run log_path
    = (None, print ''No video files found.''
        \<lparr>fs = fs0, stdout = [], log = [], good = [], corrupted = [], removes = []\<rparr>)"
  by (simp add: scan_videos_def)

lemma scan_videos_no_pool:
  "files \<noteq> [] \<Longrightarrow> workers < 1 \<Longrightarrow>
    fst (scan_videos h sched locked fs0 files workers dry_run log_path)
      = Some (ValueError ''Number of processes must be at least 1'') \<and>
    fs (snd (scan_videos h sched locked fs0 files workers dry_run log_path)) = fs0 \<and>
    log (snd (scan_videos h sched locked fs0 files workers dry_run log_path)) = [] \<and>
    good (snd (scan_videos h sched locked fs0 files workers dry_run log_path)) = [] \<and>
    corrupted (snd (scan_videos h sched locked fs0 files workers dry_run log_path)) = [] \<and>
    removes (snd (scan_videos h sched locked fs0 files workers dry_run log_path)) = []"
  by (simp add: scan_videos_def Let_def print_fields)

lemma scan_videos_run:
  assumes "files \<noteq> []" and "1 \<le> workers"
  shows "fst (scan_videos h sched locked fs0 files workers dry_run log_path)
      = first_error (arrivals h sched files workers)"
    and "log (snd (scan_videos h sched locked fs0 files workers dry_run log_path))
      = map log_line (consumed (arrivals h sched files workers))"
    and "good (snd (scan_videos h sched locked fs0 files workers dry_run log_path))
      = map fst (filter (\<lambda>r. \<not> fst (snd r)) (consumed (arrivals h sched files workers)))"
    and "corrupted (snd (scan_videos h sched locked fs0 files workers dry_run log_path))
      = map fst (filter (\<lambda>r. fst (snd r)) (consumed (arrivals h sched files workers)))"
    and "removes (snd (scan_videos h sched locked fs0 files workers dry_run log_path))
      = (if first_error (arrivals h sched files workers) = None \<and> \<not> dry_run
         then map fst (filter (\<lambda>r. fst (snd r)) (consumed (arrivals h sched files workers)))
         else [])"
  using assms
  by (simp_all add: scan_videos_def Let_def case_prod_beta arrivals_def [symmetric]
      for_results_error for_results_log for_results_good for_results_corrupted
      for_results_removes for_results_fs print_fields delete_loop_removes delete_loop_kept
      split: option.splits)


lemma scan_videos_fs:
  assumes "files \<noteq> []" and "1 \<le> workers"
  shows "fs (snd (scan_videos h sched locked fs0 files workers dry_run log_path)) p
      = (if p \<in> set (removes (snd (scan_videos h sched locked fs0 files workers dry_run log_path)))
            \<and> p \<notin> locked
         then None
         else if p = log_path
         then Some (concat (log (snd (scan_videos h sched locked fs0 files workers dry_run log_path))))
         else fs0 p)"
  unfolding scan_videos_run [OF assms]
  using assms
  by (auto simp add: scan_videos_def Let_def case_prod_beta arrivals_def [symmetric]
      for_results_error for_results_log for_results_good for_results_corrupted
      for_results_removes for_results_fs print_fields delete_loop_fs delete_loop_kept
      filter_empty_conv
      split: option.splits)

text \<open>The state of any run, in terms of the files it classified.\<close>

lemma set_classified: "set (classified h sched files workers) \<subseteq> set files"
proof -
  have "set (classified h sched files workers)
      \<subseteq> set (completion_order (nat workers) sched files)"
    unfolding classified_def by (auto dest: set_takeWhileD)
  also note set_completion_order
  finally show ?thesis .
qed

lemma classified_returns: "p \<in> set (classified h sched files workers) \<Longrightarrow> \<not> probe_raises h p"
  unfolding classified_def by (auto dest: set_takeWhileD)

lemma classified_all:
  assumes "1 \<le> workers" and "\<forall>p\<in>set files. \<not> probe_raises h p"
  shows "classified h sched files workers = completion_order (nat workers) sched files"
proof -
  from set_completion_order [of "nat workers" sched files] assms(2)
  have "\<forall>p\<in>set (completion_order (nat workers) sched files). \<not> probe_raises h p"
    by blast
  then show ?thesis
    by (simp add: classified_def)
qed


lemma scan_videos_state:
  "good (snd (scan_videos h sched locked fs0 files workers dry_run log_path))
      = filter (\<lambda>p. \<not> is_corrupt_file h p) (classified h sched files workers)"
  "corrupted (snd (scan_videos h sched locked fs0 files workers dry_run log_path))
      = filter (is_corrupt_file h) (classified h sched files workers)"
  "log (snd (scan_videos h sched locked fs0 files workers dry_run log_path))
      = map (record_of h) (classified h sched files workers)"
proof -
  consider "files = []" | "files \<noteq> []" "workers < 1" | "files \<noteq> []" "1 \<le> workers"
    by linarith
  then have "good (snd (scan_videos h sched locked fs0 files workers dry_run log_path))
      = filter (\<lambda>p. \<not> is_corrupt_file h p) (classified h sched files workers)
    \<and> corrupted (snd (scan_videos h sched locked fs0 files workers dry_run log_path))
      = filter (is_corrupt_file h) (classified h sched files workers)
    \<and> log (snd (scan_videos h sched locked fs0 files workers dry_run log_path))
      = map (record_of h) (classified h sched files workers)"
  proof cases
    case 1
    then show ?thesis
      by (simp add: scan_videos_empty print_fields classified_def completion_order_Nil)
  next
    case 2
    then have "nat workers = 0" by simp
    with 2 show ?thesis
      by (simp add: scan_videos_no_pool classified_def completion_order_no_workers)
  next
    case 3
    then show ?thesis
      by (simp add: scan_videos_run arrivals_def imap_unordered_def classified_def
          consumed_good consumed_corrupted consumed_log)
  qed
  then show
    "good (snd (scan_videos h sched locked fs0 files workers dry_run log_path))
      = filter (\<lambda>p. \<not> is_corrupt_file h p) (classified h sched files workers)"
    "corrupted (snd (scan_videos h sched locked fs0 files workers dry_run log_path))
      = filter (is_corrupt_file h) (classified h sched files workers)"
    "log (snd (scan_videos h sched locked fs0 files workers dry_run log_path))
      = map (record_of h) (classified h sched files workers)"
    by simp_all
qed

lemma scan_videos_removes:
  "removes (snd (scan_videos h sched locked fs0 files workers dry_run log_path))
    = (if fst (scan_videos h sched locked fs0 files workers dry_run log_path) = None \<and> \<not> dry_run
       then corrupted (snd (scan_videos h sched locked fs0 files workers dry_run log_path))
       else [])"
proof -
  consider "files = []" | "files \<noteq> []" "workers < 1" | "files \<noteq> []" "1 \<le> workers"
    by linarith
  then show ?thesis
  proof cases
    case 1
    then show ?thesis
      by (simp add: scan_videos_empty print_fields)
  next
    case 2
    then show ?thesis
      by (simp add: scan_videos_no_pool)
  next
    case 3
    then show ?thesis
      by (simp add: scan_videos_run)
  qed
qed

lemma scan_videos_returns:
  "fst (scan_videos h sched locked fs0 files workers dry_run log_path) = None
    \<longleftrightarrow> files = [] \<or> 1 \<le> workers \<and> (\<forall>p\<in>set files. \<not> probe_raises h p)"
proof -
  consider "files = []" | "files \<noteq> []" "workers < 1" | "files \<noteq> []" "1 \<le> workers"
    by linarith
  then show ?thesis
  proof cases
    case 1
    then show ?thesis
      by (simp add: scan_videos_empty)
  next
    case 2
    then show ?thesis
      by (simp add: scan_videos_no_pool)
  next
    case 3
    then have "0 < nat workers" by simp
    then have "set (completion_order (nat workers) sched files) = set files"
      by (intro mset_eq_setD mset_completion_order)
    with 3 show ?thesis
      by (simp add: scan_videos_run arrivals_def imap_unordered_def first_error_none)
  qed
qed

lemma scan_videos_complete:
  assumes "fst (scan_videos h sched locked fs0 files workers dry_run log_path) = None"
  shows "mset (classified h sched files workers) = mset files"
proof (cases "files = []")
  case True
  then show ?thesis
    by (simp add: classified_def completion_order_Nil)
next
  case False
  with assms have w: "1 \<le> workers" and ok: "\<forall>p\<in>set files. \<not> probe_raises h p"
    by (simp_all add: scan_videos_returns)
  from w have "0 < nat workers" by simp
  with classified_all [OF w ok] show ?thesis
    by (simp add: mset_completion_order)
qed

lemma corrupt_file_record:
  "is_corrupt_file h p \<Longrightarrow>
    \<exists>reason. check_video h p = Inr (p, True, reason) \<and> record_of h p = corrupt_line reason p"
  using check_video_cases [of h p]
  by (auto simp add: is_corrupt_file_def record_of_def log_line_def probe_raises_def)

lemma good_file_record:
  "\<not> probe_raises h p \<Longrightarrow> \<not> is_corrupt_file h p \<Longrightarrow>
    \<exists>reason. check_video h p = Inr (p, False, reason) \<and> record_of h p = ok_line p"
  using check_video_cases [of h p]
  by (auto simp add: record_of_def log_line_def)

lemma scan_videos_fs_any:
  "fs (snd (scan_videos h sched locked fs0 files workers dry_run log_path)) p
    = (if p \<in> set (removes (snd (scan_videos h sched locked fs0 files workers dry_run log_path)))
          \<and> p \<notin> locked
       then None
       else if p = log_path \<and> files \<noteq> [] \<and> 1 \<le> workers
       then Some (concat (log (snd (scan_videos h sched locked fs0 files workers dry_run log_path))))
       else fs0 p)"
proof -
  consider "files = []" | "files \<noteq> []" "workers < 1" | "files \<noteq> []" "1 \<le> workers"
    by linarith
  then show ?thesis
  proof cases
    case 1
    then show ?thesis
      by (simp add: scan_videos_empty print_fields)
  next
    case 2
    then show ?thesis
      by (simp add: scan_videos_no_pool)
  next
    case 3
    then show ?thesis
      by (simp add: scan_videos_fs)
  qed
qed

lemma consumed_paths:
  "map fst (consumed (map (check_video h) ps)) = takeWhile (\<lambda>p. \<not> probe_raises h p) ps"
proof (induction ps)
  case Nil
  show ?case by simp
next
  case (Cons p ps)
  from check_video_cases [of h p] Cons.IH show ?case
    by auto
qed

lemma arrivals_paths:
  "map fst (consumed (arrivals h sched files workers)) = classified h sched files workers"
  by (simp add: arrivals_def imap_unordered_def classified_def consumed_paths)

lemma record_shape:
  "\<not> probe_raises h p \<Longrightarrow>
    record_of h p = ok_line p \<or> (\<exists>reason. record_of h p = corrupt_line reason p)"
  using corrupt_file_record [of h p] good_file_record [of h p]
  by blast

lemma check_video_verdict:
  "vlc_can_play h p 30 = Inr (playable, reason) \<Longrightarrow>
    check_video h p = Inr (p, \<not> playable, reason)"
  by (simp add: check_video_def)

lemma record_result_log:
  "log (record_result (p, \<not> playable, reason) s)
    = log s @ [if playable then ''OK'' @ [TAB] @ p @ [NL]
               else ''CORRUPT'' @ [TAB] @ reason @ [TAB] @ p @ [NL]]"
  by (simp add: record_result_fields log_line_def ok_line_def corrupt_line_def)

lemma classified_verdict:
  assumes "\<not> probe_raises h p"
  shows "\<exists>playable reason. vlc_can_play h p 30 = Inr (playable, reason) \<and>
      check_video h p = Inr (p, \<not> playable, reason) \<and>
      is_corrupt_file h p = (\<not> playable) \<and>
      record_of h p = (if playable then ''OK'' @ [TAB] @ p @ [NL]
                       else ''CORRUPT'' @ [TAB] @ reason @ [TAB] @ p @ [NL])"
proof (cases "vlc_can_play h p 30")
  case (Inl e)
  with assms show ?thesis
    by (simp add: probe_raises_def check_video_def)
next
  case (Inr r)
  obtain playable reason where r: "r = (playable, reason)"
    by (cases r)
  from Inr r have "check_video h p = Inr (p, \<not> playable, reason)"
    by (simp add: check_video_verdict)
  with Inr r show ?thesis
    by (simp add: is_corrupt_file_def record_of_def log_line_def ok_line_def corrupt_line_def)
qed

lemma vlc_can_play_missing:
  "\<not> cvlc_on_path h \<Longrightarrow> vlc_can_play h p timeout = Inr (False, cvlc_not_found)"
  by (simp add: vlc_can_play_def subprocess_run_missing)

lemma check_video_missing:
  assumes "\<not> cvlc_on_path h"
  shows "check_video h p = Inr (p, True, cvlc_not_found)"
    and "\<not> probe_raises h p"
    and "is_corrupt_file h p"
    and "record_of h p = corrupt_line cvlc_not_found p"
proof -
  from assms show probe: "check_video h p = Inr (p, True, cvlc_not_found)"
    by (simp add: check_video_def vlc_can_play_missing)
  then show "\<not> probe_raises h p" and "is_corrupt_file h p"
    and "record_of h p = corrupt_line cvlc_not_found p"
    by (simp_all add: probe_raises_def is_corrupt_file_def record_of_def log_line_def)
qed

lemma check_video_breaks:
  "cvlc_on_path h \<Longrightarrow> cvlc h p = Breaks e \<Longrightarrow> check_video h p = Inl (OtherError e)"
  by (simp add: check_video_def vlc_can_play_def subprocess_run_breaks)

lemma check_video_overrun:
  "cvlc_on_path h \<Longrightarrow> overruns (cvlc h p) 30 \<Longrightarrow>
    check_video h p = Inr (p, True, ''timeout expired'')"
  by (simp add: check_video_def vlc_can_play_def subprocess_run_overrun)

text \<open>The example runs, evaluated.\<close>

lemma demo_run_value:
  "fst demo_run = None"
  "good (snd demo_run) = [''a.mp4'']"
  "corrupted (snd demo_run) = [''b.mp4'', ''c.mp4'']"
  "removes (snd demo_run) = [''b.mp4'', ''c.mp4'']"
  "log (snd demo_run) =
    [corrupt_line ''decoder error'' ''b.mp4'', ok_line ''a.mp4'',
     corrupt_line ''timeout expired'' ''c.mp4'']"
  "fs (snd demo_run) ''a.mp4'' = Some ''AAAA''"
  "fs (snd demo_run) ''b.mp4'' = None"
  "fs (snd demo_run) ''c.mp4'' = None"
  by code_simp+

lemma garbled_probe:
  "vlc_can_play garbled_host ''a.mp4'' 30 = Inl (OtherError ''UnicodeDecodeError'')"
  "check_video garbled_host ''a.mp4'' = Inl (OtherError ''UnicodeDecodeError'')"
  "probe_raises garbled_host ''a.mp4''"
  by code_simp+

lemma demo_probes:
  "check_video demo_host ''a.mp4'' = Inr (''a.mp4'', False, ''ok'')"
  "check_video demo_host ''b.mp4'' = Inr (''b.mp4'', True, ''decoder error'')"
  "check_video demo_host ''c.mp4'' = Inr (''c.mp4'', True, ''timeout expired'')"
  by code_simp+

lemma demo_dry_run_value:
  "fst demo_dry_run = None"
  "corrupted (snd demo_dry_run) = [''b.mp4'', ''c.mp4'']"
  "removes (snd demo_dry_run) = []"
  "log (snd demo_dry_run) =
    [corrupt_line ''decoder error'' ''b.mp4'', ok_line ''a.mp4'',
     corrupt_line ''timeout expired'' ''c.mp4'']"
  "fs (snd demo_dry_run) ''b.mp4'' = Some ''BBBB''"
  "fs (snd demo_dry_run) ''video_scan.log'' =
    Some (corrupt_line ''decoder error'' ''b.mp4'' @ ok_line ''a.mp4'' @
      corrupt_line ''timeout expired'' ''c.mp4'')"
  by code_simp+

section \<open>The properties of the specification, C1 to C10\<close>

subsection \<open>C1: deletion is gated on a logged CORRUPT classification\<close>

text \<open>
  C1. In every run, a path is handed to \<^verbatim>\<open>os.remove\<close> only if it is in the corrupt list,
  its probe returned the verdict CORRUPT and the CORRUPT record with that reason was
  written to the log; a file that was there before the run and is gone after it was
  handed to \<^verbatim>\<open>os.remove\<close>; and deletion starts only after the loop has ended without an
  exception, when every file has been classified.
\<close>

theorem deletion_gated:
  assumes "scan_videos h sched locked fs0 files workers dry_run log_path = (err, st)"
  shows "(\<forall>p\<in>set (removes st). p \<in> set (corrupted st) \<and>
            (\<exists>reason. check_video h p = Inr (p, True, reason) \<and>
               corrupt_line reason p \<in> set (log st))) \<and>
         (\<forall>p. fs0 p \<noteq> None \<and> fs st p = None \<longrightarrow> p \<in> set (removes st)) \<and>
         (removes st \<noteq> [] \<longrightarrow>
            err = None \<and> mset (good st) + mset (corrupted st) = mset files)"
proof -
  let ?R = "scan_videos h sched locked fs0 files workers dry_run log_path"
  let ?done = "classified h sched files workers"
  from assms have err: "err = fst ?R" and st: "st = snd ?R"
    by simp_all
  have gated: "p \<in> set (corrupted st) \<and>
      (\<exists>reason. check_video h p = Inr (p, True, reason) \<and> corrupt_line reason p \<in> set (log st))"
    if "p \<in> set (removes st)" for p
  proof -
    from that have in_corrupted: "p \<in> set (corrupted st)"
      unfolding st by (auto simp add: scan_videos_removes split: if_splits)
    then have p: "p \<in> set ?done" and bad: "is_corrupt_file h p"
      unfolding st by (simp_all add: scan_videos_state)
    from corrupt_file_record [OF bad] obtain reason
      where reason: "check_video h p = Inr (p, True, reason)"
        and line: "record_of h p = corrupt_line reason p"
      by blast
    from p have "record_of h p \<in> set (log st)"
      unfolding st by (simp add: scan_videos_state)
    with line reason in_corrupted show ?thesis
      by auto
  qed
  have vanished: "p \<in> set (removes st)" if "fs0 p \<noteq> None \<and> fs st p = None" for p
    using that unfolding st by (auto simp add: scan_videos_fs_any split: if_splits)
  have complete: "err = None \<and> mset (good st) + mset (corrupted st) = mset files"
    if "removes st \<noteq> []"
  proof -
    from that have none: "fst ?R = None"
      unfolding st by (simp add: scan_videos_removes split: if_splits)
    have "mset (good st) + mset (corrupted st) = mset ?done"
      unfolding st by (simp add: scan_videos_state union_commute)
    with scan_videos_complete [OF none] none show ?thesis
      by (simp add: err)
  qed
  from gated vanished complete show ?thesis
    by blast
qed

theorem deletion_gated_witness:
  "''b.mp4'' \<in> set (removes (snd demo_run)) \<and>
   ''b.mp4'' \<in> set (corrupted (snd demo_run)) \<and>
   corrupt_line ''decoder error'' ''b.mp4'' \<in> set (log (snd demo_run)) \<and>
   demo_fs ''b.mp4'' \<noteq> None \<and> fs (snd demo_run) ''b.mp4'' = None \<and>
   removes (snd demo_run) \<noteq> [] \<and> fst demo_run = None"
proof -
  have run: "scan_videos demo_host [1, 0, 0] {} demo_fs
      [''a.mp4'', ''b.mp4'', ''c.mp4''] 2 False ''video_scan.log'' = (fst demo_run, snd demo_run)"
    by (simp add: demo_run_def)
  have before: "demo_fs ''b.mp4'' \<noteq> None"
    by (simp add: demo_fs_def)
  from deletion_gated [OF run] before demo_probes(2) show ?thesis
    by (auto simp add: demo_run_value)
qed

subsection \<open>C2: every file is classified once\<close>

text \<open>
  C2, as stated, fails: a probe that raises an exception which \<^verbatim>\<open>vlc_can_play\<close> does not
  catch ends the loop of \<^verbatim>\<open>scan_videos\<close>. On \<open>faulty_host\<close> the run over the one file
  \<^verbatim>\<open>a.mp4\<close> produces no classification result, and the good and the corrupt list are
  both empty.
\<close>

theorem results_lost_counterexample:
  "length (consumed (arrivals faulty_host [] [''a.mp4''] 1)) \<noteq> length [''a.mp4''] \<and>
   length (good (snd (scan_videos faulty_host [] {} demo_fs [''a.mp4''] 1 True
       ''video_scan.log''))) +
     length (corrupted (snd (scan_videos faulty_host [] {} demo_fs [''a.mp4''] 1 True
       ''video_scan.log''))) \<noteq> length [''a.mp4''] \<and>
   fst (scan_videos faulty_host [] {} demo_fs [''a.mp4''] 1 True ''video_scan.log'')
     = Some (OtherError ''OSError'')"
  by code_simp

text \<open>
  C2, amended. For every list of files, every worker count of at least one and every
  schedule of the pool: if no probe raises an exception other than the two that
  \<^verbatim>\<open>vlc_can_play\<close> catches, the run returns, the parent receives exactly one result per
  submitted file (as multisets of paths, so none is lost and none comes twice), every
  file is in the good or in the corrupt list according to its verdict, and the sizes of
  the two lists sum to the number of files.
\<close>

theorem every_file_classified_once:
  assumes "1 \<le> workers"
    and "\<forall>p\<in>set files. \<not> probe_raises h p"
    and "scan_videos h sched locked fs0 files workers dry_run log_path = (err, st)"
  shows "err = None \<and>
         mset (map fst (consumed (arrivals h sched files workers))) = mset files \<and>
         length (consumed (arrivals h sched files workers)) = length files \<and>
         mset (good st) = mset (filter (\<lambda>p. \<not> is_corrupt_file h p) files) \<and>
         mset (corrupted st) = mset (filter (is_corrupt_file h) files) \<and>
         mset (good st) + mset (corrupted st) = mset files \<and>
         length (good st) + length (corrupted st) = length files"
proof -
  let ?R = "scan_videos h sched locked fs0 files workers dry_run log_path"
  let ?done = "classified h sched files workers"
  from assms(3) have err: "err = fst ?R" and st: "st = snd ?R"
    by simp_all
  from assms(1,2) have none: "fst ?R = None"
    by (simp add: scan_videos_returns)
  then have all: "mset ?done = mset files"
    by (rule scan_videos_complete)
  then have results: "mset (map fst (consumed (arrivals h sched files workers))) = mset files"
    by (simp add: arrivals_paths)
  then have "size (mset (map fst (consumed (arrivals h sched files workers)))) = size (mset files)"
    by simp
  then have count: "length (consumed (arrivals h sched files workers)) = length files"
    by simp
  have good: "mset (good st) = mset (filter (\<lambda>p. \<not> is_corrupt_file h p) files)"
    unfolding st by (simp add: scan_videos_state all)
  have corrupted: "mset (corrupted st) = mset (filter (is_corrupt_file h) files)"
    unfolding st by (simp add: scan_videos_state all)
  from good corrupted have both: "mset (good st) + mset (corrupted st) = mset files"
    by (simp add: union_commute)
  then have "size (mset (good st) + mset (corrupted st)) = size (mset files)"
    by simp
  then have "length (good st) + length (corrupted st) = length files"
    by simp
  with none results count good corrupted both show ?thesis
    by (simp add: err)
qed

theorem every_file_classified_once_witness:
  "(1::int) \<le> 2 \<and>
   \<not> probe_raises demo_host ''a.mp4'' \<and> \<not> probe_raises demo_host ''b.mp4'' \<and>
   \<not> probe_raises demo_host ''c.mp4'' \<and>
   fst demo_run = None \<and>
   mset (good (snd demo_run)) + mset (corrupted (snd demo_run))
     = mset [''a.mp4'', ''b.mp4'', ''c.mp4''] \<and>
   length (good (snd demo_run)) + length (corrupted (snd demo_run)) = 3"
proof -
  have workers: "(1::int) \<le> 2"
    by simp
  have returns: "\<not> probe_raises demo_host ''a.mp4''" "\<not> probe_raises demo_host ''b.mp4''"
    "\<not> probe_raises demo_host ''c.mp4''"
    by (simp_all add: probe_raises_def demo_probes)
  then have all: "\<forall>p\<in>set [''a.mp4'', ''b.mp4'', ''c.mp4'']. \<not> probe_raises demo_host p"
    by simp
  have run: "scan_videos demo_host [1, 0, 0] {} demo_fs
      [''a.mp4'', ''b.mp4'', ''c.mp4''] 2 False ''video_scan.log'' = (fst demo_run, snd demo_run)"
    by (simp add: demo_run_def)
  from every_file_classified_once [OF workers all run] returns show ?thesis
    by simp
qed

subsection \<open>C3: verdict and log record\<close>

text \<open>
  C3. Whenever the probe of a file returns \<open>(playable, reason)\<close>, \<^verbatim>\<open>check_video\<close> gives
  the verdict CORRUPT exactly when \<open>playable\<close> is false and passes the reason on
  unchanged, and the loop body writes one record for it, \<^verbatim>\<open>OK\t<path>\<close> for a playable
  file and \<^verbatim>\<open>CORRUPT\t<reason>\t<path>\<close> otherwise. In every run the log holds exactly
  the records of the classified files, one each, in the order of completion; each
  classified file is in the good list exactly when it is playable and in the corrupt
  list exactly when it is not; and when the run returns, the classified files are the
  submitted ones.
\<close>

theorem verdict_and_log_record:
  assumes "scan_videos h sched locked fs0 files workers dry_run log_path = (err, st)"
  shows "(\<forall>p playable reason s. vlc_can_play h p 30 = Inr (playable, reason) \<longrightarrow>
            check_video h p = Inr (p, \<not> playable, reason) \<and>
            log (record_result (p, \<not> playable, reason) s)
              = log s @ [if playable then ''OK'' @ [TAB] @ p @ [NL]
                         else ''CORRUPT'' @ [TAB] @ reason @ [TAB] @ p @ [NL]]) \<and>
         log st = map (record_of h) (classified h sched files workers) \<and>
         (\<forall>p\<in>set (classified h sched files workers). \<exists>playable reason.
            vlc_can_play h p 30 = Inr (playable, reason) \<and>
            (p \<in> set (good st) \<longleftrightarrow> playable) \<and>
            (p \<in> set (corrupted st) \<longleftrightarrow> \<not> playable) \<and>
            record_of h p = (if playable then ''OK'' @ [TAB] @ p @ [NL]
                             else ''CORRUPT'' @ [TAB] @ reason @ [TAB] @ p @ [NL])) \<and>
         (err = None \<longrightarrow> mset (classified h sched files workers) = mset files)"
proof -
  let ?R = "scan_videos h sched locked fs0 files workers dry_run log_path"
  let ?done = "classified h sched files workers"
  from assms have err: "err = fst ?R" and st: "st = snd ?R"
    by simp_all
  have probe: "\<forall>p playable reason s. vlc_can_play h p 30 = Inr (playable, reason) \<longrightarrow>
      check_video h p = Inr (p, \<not> playable, reason) \<and>
      log (record_result (p, \<not> playable, reason) s)
        = log s @ [if playable then ''OK'' @ [TAB] @ p @ [NL]
                   else ''CORRUPT'' @ [TAB] @ reason @ [TAB] @ p @ [NL]]"
    by (simp add: check_video_verdict record_result_log)
  have log: "log st = map (record_of h) ?done"
    unfolding st by (simp add: scan_videos_state)
  have each: "\<forall>p\<in>set ?done. \<exists>playable reason.
      vlc_can_play h p 30 = Inr (playable, reason) \<and>
      (p \<in> set (good st) \<longleftrightarrow> playable) \<and>
      (p \<in> set (corrupted st) \<longleftrightarrow> \<not> playable) \<and>
      record_of h p = (if playable then ''OK'' @ [TAB] @ p @ [NL]
                       else ''CORRUPT'' @ [TAB] @ reason @ [TAB] @ p @ [NL])"
  proof
    fix p
    assume p: "p \<in> set ?done"
    from p have "\<not> probe_raises h p"
      by (rule classified_returns)
    from classified_verdict [OF this] obtain playable reason
      where v: "vlc_can_play h p 30 = Inr (playable, reason)"
        and c: "is_corrupt_file h p = (\<not> playable)"
        and l: "record_of h p = (if playable then ''OK'' @ [TAB] @ p @ [NL]
                                 else ''CORRUPT'' @ [TAB] @ reason @ [TAB] @ p @ [NL])"
      by blast
    from p c have "p \<in> set (good st) \<longleftrightarrow> playable" "p \<in> set (corrupted st) \<longleftrightarrow> \<not> playable"
      unfolding st by (simp_all add: scan_videos_state)
    with v l show "\<exists>playable reason.
        vlc_can_play h p 30 = Inr (playable, reason) \<and>
        (p \<in> set (good st) \<longleftrightarrow> playable) \<and>
        (p \<in> set (corrupted st) \<longleftrightarrow> \<not> playable) \<and>
        record_of h p = (if playable then ''OK'' @ [TAB] @ p @ [NL]
                         else ''CORRUPT'' @ [TAB] @ reason @ [TAB] @ p @ [NL])"
      by (intro exI conjI)
  qed
  have complete: "err = None \<longrightarrow> mset ?done = mset files"
    unfolding err by (simp add: scan_videos_complete)
  from probe log each complete show ?thesis
    by (intro conjI)
qed

theorem verdict_and_log_record_witness:
  "vlc_can_play demo_host ''b.mp4'' 30 = Inr (False, ''decoder error'') \<and>
   check_video demo_host ''b.mp4'' = Inr (''b.mp4'', True, ''decoder error'') \<and>
   fst demo_run = None \<and>
   classified demo_host [1, 0, 0] [''a.mp4'', ''b.mp4'', ''c.mp4''] 2
     = [''b.mp4'', ''a.mp4'', ''c.mp4''] \<and>
   log (snd demo_run) = map (record_of demo_host) [''b.mp4'', ''a.mp4'', ''c.mp4''] \<and>
   log (snd demo_run) =
     [''CORRUPT'' @ [TAB] @ ''decoder error'' @ [TAB] @ ''b.mp4'' @ [NL],
      ''OK'' @ [TAB] @ ''a.mp4'' @ [NL],
      ''CORRUPT'' @ [TAB] @ ''timeout expired'' @ [TAB] @ ''c.mp4'' @ [NL]]"
proof -
  have run: "scan_videos demo_host [1, 0, 0] {} demo_fs
      [''a.mp4'', ''b.mp4'', ''c.mp4''] 2 False ''video_scan.log'' = (fst demo_run, snd demo_run)"
    by (simp add: demo_run_def)
  have probe: "vlc_can_play demo_host ''b.mp4'' 30 = Inr (False, ''decoder error'')"
    by code_simp
  have order: "classified demo_host [1, 0, 0] [''a.mp4'', ''b.mp4'', ''c.mp4''] 2
      = [''b.mp4'', ''a.mp4'', ''c.mp4'']"
    by code_simp
  from verdict_and_log_record [OF run]
  have "log (snd demo_run)
      = map (record_of demo_host) (classified demo_host [1, 0, 0] [''a.mp4'', ''b.mp4'', ''c.mp4''] 2)"
    by (elim conjE)
  then have records: "log (snd demo_run) = map (record_of demo_host) [''b.mp4'', ''a.mp4'', ''c.mp4'']"
    by (simp only: order)
  have written: "log (snd demo_run) =
     [''CORRUPT'' @ [TAB] @ ''decoder error'' @ [TAB] @ ''b.mp4'' @ [NL],
      ''OK'' @ [TAB] @ ''a.mp4'' @ [NL],
      ''CORRUPT'' @ [TAB] @ ''timeout expired'' @ [TAB] @ ''c.mp4'' @ [NL]]"
    by (simp add: demo_run_value corrupt_line_def ok_line_def)
  from probe demo_probes(2) demo_run_value(1) order records written show ?thesis
    by (intro conjI)
qed

subsection \<open>C4: the probe of a process that ends in time\<close>

text \<open>
  C4, as stated, fails in its second half: the reason of a failed probe is not the text
  that cvlc wrote to its standard error but that text with the newlines translated and
  \<^verbatim>\<open>strip()\<close> applied. On \<open>demo_host\<close> cvlc writes the line \<^verbatim>\<open>decoder error\<close> with its
  newline for \<^verbatim>\<open>b.mp4\<close>, and the reason returned has no newline.
\<close>

theorem stderr_stripped_counterexample:
  "cvlc_on_path demo_host \<and>
   cvlc demo_host ''b.mp4'' = Exits 1 1 (Text []) (Text (''decoder error'' @ [NL])) \<and>
   vlc_can_play demo_host ''b.mp4'' 30 = Inr (False, ''decoder error'') \<and>
   vlc_can_play demo_host ''b.mp4'' 30 \<noteq> Inr (False, ''decoder error'' @ [NL])"
  by (simp add: demo_host_def vlc_can_play_def subprocess_run_def strip_def isspace_def)

text \<open>
  C4, amended. For every file and positive timeout, if cvlc is found, its process ends
  within the timeout and what it wrote to its standard output and standard error decodes
  as text, then \<^verbatim>\<open>vlc_can_play\<close> returns \<open>(True, ''ok'')\<close> when the return code is zero,
  and otherwise \<open>(False, reason)\<close> where the reason is the text of the standard error
  with every carriage return and line feed pair and every other carriage return turned
  into a line feed, and leading and trailing white space then removed (it may be empty).
\<close>

theorem probe_of_completed_process:
  assumes "0 < timeout" and "cvlc_on_path h"
    and "cvlc h p = Exits d rc (Text out) (Text err)" and "d \<le> timeout"
  shows "vlc_can_play h p timeout
      = (if rc = 0 then Inr (True, ''ok'')
         else Inr (False, strip (translate_newlines err)))"
  by (simp add: vlc_can_play_def subprocess_run_completed [OF assms(2-4)])

theorem probe_of_completed_process_witness:
  "(0::nat) < 30 \<and> cvlc_on_path demo_host \<and>
   cvlc demo_host ''a.mp4'' = Exits 3 0 (Text []) (Text []) \<and> (3::nat) \<le> 30 \<and>
   vlc_can_play demo_host ''a.mp4'' 30 = Inr (True, ''ok'') \<and>
   cvlc demo_host ''b.mp4'' = Exits 1 1 (Text []) (Text (''decoder error'' @ [NL])) \<and>
   (1::nat) \<le> 30 \<and>
   vlc_can_play demo_host ''b.mp4'' 30 = Inr (False, ''decoder error'') \<and>
   cvlc_on_path windows_host \<and>
   cvlc windows_host ''b.mp4''
     = Exits 2 1 (Text []) (Text (''line one'' @ [CR, NL] @ ''line two'' @ [CR, NL])) \<and>
   (2::nat) \<le> 30 \<and>
   vlc_can_play windows_host ''b.mp4'' 30 = Inr (False, ''line one'' @ [NL] @ ''line two'')"
proof -
  have on_path: "cvlc_on_path demo_host" and win_path: "cvlc_on_path windows_host"
    by (simp_all add: demo_host_def windows_host_def)
  have a: "cvlc demo_host ''a.mp4'' = Exits 3 0 (Text []) (Text [])"
    and b: "cvlc demo_host ''b.mp4'' = Exits 1 1 (Text []) (Text (''decoder error'' @ [NL]))"
    by (simp_all add: demo_host_def)
  have w: "cvlc windows_host ''b.mp4''
      = Exits 2 1 (Text []) (Text (''line one'' @ [CR, NL] @ ''line two'' @ [CR, NL]))"
    by (simp add: windows_host_def)
  have a_time: "(3::nat) \<le> 30" and b_time: "(1::nat) \<le> 30" and w_time: "(2::nat) \<le> 30"
    and positive: "(0::nat) < 30"
    by simp_all
  from probe_of_completed_process [OF positive on_path a a_time]
  have a_probe: "vlc_can_play demo_host ''a.mp4'' 30 = Inr (True, ''ok'')"
    by simp
  from probe_of_completed_process [OF positive on_path b b_time]
  have b_probe: "vlc_can_play demo_host ''b.mp4'' 30 = Inr (False, ''decoder error'')"
    by (simp add: strip_def isspace_def)
  from probe_of_completed_process [OF positive win_path w w_time]
  have w_probe: "vlc_can_play windows_host ''b.mp4'' 30
      = Inr (False, ''line one'' @ [NL] @ ''line two'')"
    by (simp add: strip_def isspace_def)
  from positive on_path a a_time a_probe b b_time b_probe win_path w w_time w_probe
  show ?thesis
    by (intro conjI)
qed

subsection \<open>C5: a probe that overruns its timeout\<close>

text \<open>
  C5. When cvlc is started on a file and has not ended after the timeout,
  \<^verbatim>\<open>subprocess.run\<close> kills the process and raises \<open>TimeoutExpired\<close> (the library's
  contract, as modelled in \<open>subprocess_run\<close>), and \<^verbatim>\<open>vlc_can_play\<close> catches it: the probe
  returns \<open>(False, ''timeout expired'')\<close> instead of raising, after exactly the timeout;
  \<^verbatim>\<open>check_video\<close>, which uses the timeout of 30 seconds, reports the file as corrupt with
  that reason. No call takes longer than its timeout, whatever the host and the file.
\<close>

theorem timeout_kills_and_returns:
  assumes "cvlc_on_path h" and "overruns (cvlc h p) timeout"
  shows "outcome (subprocess_run h p timeout) = Inl TimeoutExpired \<and>
         killed (subprocess_run h p timeout) \<and>
         elapsed (subprocess_run h p timeout) = timeout \<and>
         vlc_can_play h p timeout = Inr (False, ''timeout expired'') \<and>
         (timeout = 30 \<longrightarrow> check_video h p = Inr (p, True, ''timeout expired'')) \<and>
         (\<forall>h' p'. elapsed (subprocess_run h' p' timeout) \<le> timeout)"
proof -
  note run = subprocess_run_overrun [OF assms]
  have probe: "vlc_can_play h p timeout = Inr (False, ''timeout expired'')"
    by (simp add: vlc_can_play_def run)
  then have "timeout = 30 \<longrightarrow> check_video h p = Inr (p, True, ''timeout expired'')"
    by (auto simp add: check_video_def)
  with probe show ?thesis
    by (simp add: run subprocess_run_bounded)
qed

theorem timeout_kills_and_returns_witness:
  "cvlc_on_path demo_host \<and> overruns (cvlc demo_host ''c.mp4'') 30 \<and>
   killed (subprocess_run demo_host ''c.mp4'' 30) \<and>
   elapsed (subprocess_run demo_host ''c.mp4'' 30) = 30 \<and>
   vlc_can_play demo_host ''c.mp4'' 30 = Inr (False, ''timeout expired'') \<and>
   check_video demo_host ''c.mp4'' = Inr (''c.mp4'', True, ''timeout expired'')"
proof -
  have on_path: "cvlc_on_path demo_host"
    by (simp add: demo_host_def)
  have hangs: "overruns (cvlc demo_host ''c.mp4'') 30"
    by (simp add: demo_host_def)
  from timeout_kills_and_returns [OF on_path hangs] on_path hangs show ?thesis
    by simp
qed

subsection \<open>C6: cvlc is missing from the host\<close>

text \<open>
  C6, as stated, fails: the code has no outcome of its own for a missing cvlc. On
  \<open>bare_host\<close> the file \<^verbatim>\<open>a.mp4\<close> is put on the corrupt list, logged with a CORRUPT record
  and, the run not being a dry run, removed.
\<close>

theorem unavailable_recorded_corrupt_counterexample:
  "\<not> cvlc_on_path bare_host \<and>
   demo_fs ''a.mp4'' = Some ''AAAA'' \<and>
   corrupted (snd (scan_videos bare_host [] {} demo_fs [''a.mp4''] 1 False ''video_scan.log''))
     = [''a.mp4''] \<and>
   log (snd (scan_videos bare_host [] {} demo_fs [''a.mp4''] 1 False ''video_scan.log''))
     = [''CORRUPT'' @ [TAB] @ cvlc_not_found @ [TAB] @ ''a.mp4'' @ [NL]] \<and>
   removes (snd (scan_videos bare_host [] {} demo_fs [''a.mp4''] 1 False ''video_scan.log''))
     = [''a.mp4''] \<and>
   fs (snd (scan_videos bare_host [] {} demo_fs [''a.mp4''] 1 False ''video_scan.log''))
     ''a.mp4'' = None"
  by code_simp

text \<open>
  C6, amended. When cvlc is missing from the host, \<^verbatim>\<open>vlc_can_play\<close> returns
  \<open>(False, cvlc_not_found)\<close> at once, for every file and timeout: no process is started
  and no time of the timeout is used. A run with at least one worker continues over all
  files and returns; every file is recorded as CORRUPT with that reason (none as good,
  none as unavailable), and unless \<^verbatim>\<open>dry_run\<close> is set all of them are handed to
  \<^verbatim>\<open>os.remove\<close>.
\<close>

theorem missing_cvlc_marks_corrupt:
  assumes "\<not> cvlc_on_path h" and "1 \<le> workers"
    and "scan_videos h sched locked fs0 files workers dry_run log_path = (err, st)"
  shows "(\<forall>p timeout. vlc_can_play h p timeout = Inr (False, cvlc_not_found) \<and>
            \<not> spawned (subprocess_run h p timeout) \<and>
            elapsed (subprocess_run h p timeout) = 0) \<and>
         err = None \<and> good st = [] \<and> mset (corrupted st) = mset files \<and>
         log st = map (corrupt_line cvlc_not_found) (corrupted st) \<and>
         (\<not> dry_run \<longrightarrow> removes st = corrupted st)"
proof -
  let ?R = "scan_videos h sched locked fs0 files workers dry_run log_path"
  let ?done = "classified h sched files workers"
  from assms(3) have err: "err = fst ?R" and st: "st = snd ?R"
    by simp_all
  from assms(1) have probe: "\<forall>p timeout. vlc_can_play h p timeout = Inr (False, cvlc_not_found) \<and>
      \<not> spawned (subprocess_run h p timeout) \<and> elapsed (subprocess_run h p timeout) = 0"
    by (simp add: vlc_can_play_missing subprocess_run_missing)
  from assms(1,2) have none: "fst ?R = None"
    by (simp add: scan_videos_returns check_video_missing)
  then have all: "mset ?done = mset files"
    by (rule scan_videos_complete)
  from assms(1) have good: "good st = []"
    unfolding st by (simp add: scan_videos_state check_video_missing)
  from assms(1) have corrupted: "corrupted st = ?done"
    unfolding st by (simp add: scan_videos_state check_video_missing)
  from assms(1) have "log st = map (corrupt_line cvlc_not_found) ?done"
    unfolding st by (simp add: scan_videos_state check_video_missing)
  with corrupted have log: "log st = map (corrupt_line cvlc_not_found) (corrupted st)"
    by simp
  from none have removes: "\<not> dry_run \<longrightarrow> removes st = corrupted st"
    unfolding st by (auto simp add: scan_videos_removes)
  from none have "err = None"
    by (simp add: err)
  moreover from corrupted all have "mset (corrupted st) = mset files"
    by simp
  ultimately show ?thesis
    using probe good log removes by (intro conjI)
qed

theorem missing_cvlc_marks_corrupt_witness:
  "\<not> cvlc_on_path bare_host \<and> (1::int) \<le> 2 \<and>
   vlc_can_play bare_host ''a.mp4'' 30 = Inr (False, cvlc_not_found) \<and>
   elapsed (subprocess_run bare_host ''a.mp4'' 30) = 0 \<and>
   fst (scan_videos bare_host [1, 0] {} demo_fs [''a.mp4'', ''b.mp4''] 2 False ''video_scan.log'')
     = None \<and>
   good (snd (scan_videos bare_host [1, 0] {} demo_fs [''a.mp4'', ''b.mp4''] 2 False
     ''video_scan.log'')) = [] \<and>
   mset (corrupted (snd (scan_videos bare_host [1, 0] {} demo_fs [''a.mp4'', ''b.mp4''] 2 False
     ''video_scan.log''))) = mset [''a.mp4'', ''b.mp4'']"
proof -
  let ?R = "scan_videos bare_host [1, 0] {} demo_fs [''a.mp4'', ''b.mp4''] 2 False
    ''video_scan.log''"
  have missing: "\<not> cvlc_on_path bare_host"
    by (simp add: bare_host_def)
  have workers: "(1::int) \<le> 2"
    by simp
  have run: "?R = (fst ?R, snd ?R)"
    by simp
  note shown = missing_cvlc_marks_corrupt [OF missing workers run]
  from shown have "\<forall>p timeout. vlc_can_play bare_host p timeout = Inr (False, cvlc_not_found) \<and>
      \<not> spawned (subprocess_run bare_host p timeout) \<and>
      elapsed (subprocess_run bare_host p timeout) = 0"
    by (elim conjE)
  then have probe: "vlc_can_play bare_host ''a.mp4'' 30 = Inr (False, cvlc_not_found)"
    and time: "elapsed (subprocess_run bare_host ''a.mp4'' 30) = 0"
    by simp_all
  from shown have returned: "fst ?R = None"
    by (elim conjE)
  from shown have good: "good (snd ?R) = []"
    by (elim conjE)
  from shown have corrupted: "mset (corrupted (snd ?R)) = mset [''a.mp4'', ''b.mp4'']"
    by (elim conjE)
  from missing workers probe time returned good corrupted show ?thesis
    by (intro conjI)
qed

subsection \<open>C7: an unexpected exception in a probe\<close>

text \<open>
  C7, as stated, fails: an exception that \<^verbatim>\<open>vlc_can_play\<close> does not catch is not turned
  into an outcome, and it ends the batch. On \<open>faulty_host\<close>, with two workers and the
  result of \<^verbatim>\<open>a.mp4\<close> arriving first, the run ends with the \<^verbatim>\<open>OSError\<close> of that
  probe; \<^verbatim>\<open>a.mp4\<close> gets no outcome, and \<^verbatim>\<open>b.mp4\<close>, which is in flight and plays, is
  never classified or logged.
\<close>

theorem probe_exception_aborts_counterexample:
  "check_video faulty_host ''a.mp4'' = Inl (OtherError ''OSError'') \<and>
   check_video faulty_host ''b.mp4'' = Inr (''b.mp4'', False, ''ok'') \<and>
   fst (scan_videos faulty_host [0] {} demo_fs [''a.mp4'', ''b.mp4''] 2 False ''video_scan.log'')
     = Some (OtherError ''OSError'') \<and>
   good (snd (scan_videos faulty_host [0] {} demo_fs [''a.mp4'', ''b.mp4''] 2 False
     ''video_scan.log'')) = [] \<and>
   corrupted (snd (scan_videos faulty_host [0] {} demo_fs [''a.mp4'', ''b.mp4''] 2 False
     ''video_scan.log'')) = [] \<and>
   log (snd (scan_videos faulty_host [0] {} demo_fs [''a.mp4'', ''b.mp4''] 2 False
     ''video_scan.log'')) = []"
  by code_simp

text \<open>
  C7, amended. \<^verbatim>\<open>vlc_can_play\<close> turns exactly two exceptions into a failure outcome for
  the file alone: the expired timeout and the missing cvlc, both reported as corrupt with
  a fixed reason. Any other exception raised while probing a file leaves \<^verbatim>\<open>check_video\<close>
  unchanged. In a run with at least one worker in which the probe of some submitted file
  raises, the scan ends with the exception of one of its probes; the files whose results
  arrived before it are classified and logged as usual, the raising file is in neither
  list, nothing is handed to \<^verbatim>\<open>os.remove\<close>, and the file system is unchanged apart from
  the log.
\<close>

theorem unexpected_exception_aborts:
  assumes "1 \<le> workers" and "p \<in> set files" and "probe_raises h p"
    and "scan_videos h sched locked fs0 files workers dry_run log_path = (err, st)"
  shows "(\<exists>q\<in>set files. \<exists>e. check_video h q = Inl e \<and> err = Some e) \<and>
         p \<notin> set (good st) \<and> p \<notin> set (corrupted st) \<and>
         good st = filter (\<lambda>q. \<not> is_corrupt_file h q) (classified h sched files workers) \<and>
         corrupted st = filter (is_corrupt_file h) (classified h sched files workers) \<and>
         log st = map (record_of h) (classified h sched files workers) \<and>
         removes st = [] \<and>
         (\<forall>q. q \<noteq> log_path \<longrightarrow> fs st q = fs0 q) \<and>
         (\<forall>h' q. cvlc_on_path h' \<and> overruns (cvlc h' q) 30 \<longrightarrow>
            check_video h' q = Inr (q, True, ''timeout expired'')) \<and>
         (\<forall>h' q. \<not> cvlc_on_path h' \<longrightarrow> check_video h' q = Inr (q, True, cvlc_not_found)) \<and>
         (\<forall>h' q e. cvlc_on_path h' \<and> cvlc h' q = Breaks e \<longrightarrow>
            check_video h' q = Inl (OtherError e))"
proof -
  let ?R = "scan_videos h sched locked fs0 files workers dry_run log_path"
  let ?done = "classified h sched files workers"
  let ?order = "completion_order (nat workers) sched files"
  from assms(4) have err: "err = fst ?R" and st: "st = snd ?R"
    by simp_all
  from assms(2) have files: "files \<noteq> []"
    by auto
  from assms(1) have "0 < nat workers"
    by simp
  then have order: "set ?order = set files"
    by (intro mset_eq_setD mset_completion_order)
  have "first_error (map (check_video h) ?order) \<noteq> None"
    using assms(2,3) order by (simp add: first_error_none) blast
  then obtain e where e: "first_error (map (check_video h) ?order) = Some e"
    by blast
  have raised: "\<exists>q\<in>set ps. check_video h q = Inl e"
    if "first_error (map (check_video h) ps) = Some e" for ps
    using that
  proof (induction ps)
    case Nil
    then show ?case by simp
  next
    case (Cons q ps)
    then show ?case
      by (cases "check_video h q") auto
  qed
  from raised [OF e] order have "\<exists>q\<in>set files. check_video h q = Inl e"
    by simp
  moreover from files assms(1) e have "err = Some e"
    unfolding err by (simp add: scan_videos_run arrivals_def imap_unordered_def)
  ultimately have exn: "\<exists>q\<in>set files. \<exists>e. check_video h q = Inl e \<and> err = Some e"
    by blast
  have good: "good st = filter (\<lambda>q. \<not> is_corrupt_file h q) ?done"
    and corrupted: "corrupted st = filter (is_corrupt_file h) ?done"
    and log: "log st = map (record_of h) ?done"
    unfolding st by (simp_all add: scan_videos_state)
  from assms(3) classified_returns [of p h sched files workers] have "p \<notin> set ?done"
    by blast
  with good corrupted have not_in: "p \<notin> set (good st)" "p \<notin> set (corrupted st)"
    by simp_all
  from \<open>err = Some e\<close> have removes: "removes st = []"
    unfolding st err by (simp add: scan_videos_removes)
  then have fs: "\<forall>q. q \<noteq> log_path \<longrightarrow> fs st q = fs0 q"
    unfolding st by (simp add: scan_videos_fs_any)
  have caught: "\<forall>h' q. cvlc_on_path h' \<and> overruns (cvlc h' q) 30 \<longrightarrow>
      check_video h' q = Inr (q, True, ''timeout expired'')"
    by (simp add: check_video_overrun)
  have missing: "\<forall>h' q. \<not> cvlc_on_path h' \<longrightarrow> check_video h' q = Inr (q, True, cvlc_not_found)"
    by (simp add: check_video_missing)
  have other: "\<forall>h' q e. cvlc_on_path h' \<and> cvlc h' q = Breaks e \<longrightarrow>
      check_video h' q = Inl (OtherError e)"
    by (simp add: check_video_breaks)
  from exn not_in good corrupted log removes fs caught missing other show ?thesis
    by (intro conjI)
qed


theorem unexpected_exception_aborts_witness:
  "(1::int) \<le> 1 \<and> ''a.mp4'' \<in> set [''b.mp4'', ''a.mp4'', ''c.mp4''] \<and>
   probe_raises faulty_host ''a.mp4'' \<and>
   fst (scan_videos faulty_host [] {} demo_fs [''b.mp4'', ''a.mp4'', ''c.mp4''] 1 False
     ''video_scan.log'') = Some (OtherError ''OSError'') \<and>
   good (snd (scan_videos faulty_host [] {} demo_fs [''b.mp4'', ''a.mp4'', ''c.mp4''] 1 False
     ''video_scan.log'')) = [''b.mp4''] \<and>
   log (snd (scan_videos faulty_host [] {} demo_fs [''b.mp4'', ''a.mp4'', ''c.mp4''] 1 False
     ''video_scan.log'')) = [record_of faulty_host ''b.mp4''] \<and>
   removes (snd (scan_videos faulty_host [] {} demo_fs [''b.mp4'', ''a.mp4'', ''c.mp4''] 1 False
     ''video_scan.log'')) = [] \<and>
   check_video demo_host ''c.mp4'' = Inr (''c.mp4'', True, ''timeout expired'') \<and>
   check_video bare_host ''a.mp4'' = Inr (''a.mp4'', True, cvlc_not_found) \<and>
   check_video faulty_host ''a.mp4'' = Inl (OtherError ''OSError'')"
proof -
  let ?R = "scan_videos faulty_host [] {} demo_fs [''b.mp4'', ''a.mp4'', ''c.mp4''] 1 False
    ''video_scan.log''"
  let ?done = "classified faulty_host [] [''b.mp4'', ''a.mp4'', ''c.mp4''] 1"
  have workers: "(1::int) \<le> 1"
    by simp
  have listed: "''a.mp4'' \<in> set [''b.mp4'', ''a.mp4'', ''c.mp4'']"
    by simp
  have raises: "probe_raises faulty_host ''a.mp4''"
    by code_simp
  have run: "?R = (fst ?R, snd ?R)"
    by simp
  have classed: "?done = [''b.mp4'']"
    by code_simp
  have verdict: "\<not> is_corrupt_file faulty_host ''b.mp4''"
    by code_simp
  have err: "fst ?R = Some (OtherError ''OSError'')"
    by code_simp
  note shown = unexpected_exception_aborts [OF workers listed raises run]
  from shown have "good (snd ?R) = filter (\<lambda>q. \<not> is_corrupt_file faulty_host q) ?done"
    by (elim conjE)
  with classed verdict have good: "good (snd ?R) = [''b.mp4'']"
    by simp
  from shown have "log (snd ?R) = map (record_of faulty_host) ?done"
    by (elim conjE)
  with classed have log: "log (snd ?R) = [record_of faulty_host ''b.mp4'']"
    by simp
  from shown have removes: "removes (snd ?R) = []"
    by (elim conjE)
  from shown have "\<forall>h' q. cvlc_on_path h' \<and> overruns (cvlc h' q) 30 \<longrightarrow>
      check_video h' q = Inr (q, True, ''timeout expired'')"
    by (elim conjE)
  from this [rule_format, of demo_host "''c.mp4''"]
  have caught: "check_video demo_host ''c.mp4'' = Inr (''c.mp4'', True, ''timeout expired'')"
    by (simp add: demo_host_def)
  from shown have "\<forall>h' q. \<not> cvlc_on_path h' \<longrightarrow> check_video h' q = Inr (q, True, cvlc_not_found)"
    by (elim conjE)
  from this [rule_format, of bare_host "''a.mp4''"]
  have missing: "check_video bare_host ''a.mp4'' = Inr (''a.mp4'', True, cvlc_not_found)"
    by (simp add: bare_host_def)
  from shown have "\<forall>h' q e. cvlc_on_path h' \<and> cvlc h' q = Breaks e \<longrightarrow>
      check_video h' q = Inl (OtherError e)"
    by (elim conjE)
  from this [rule_format, of faulty_host "''a.mp4''" "''OSError''"]
  have other: "check_video faulty_host ''a.mp4'' = Inl (OtherError ''OSError'')"
    by (simp add: faulty_host_def)
  from workers listed raises err good log removes caught missing other show ?thesis
    by (intro conjI)
qed

subsection \<open>C8: a dry run removes nothing\<close>

text \<open>
  C8, as stated, fails: the log file is part of the file system, and a dry run opens and
  writes it like any other run. In the dry run over the three example files the old
  content of \<^verbatim>\<open>video_scan.log\<close> is replaced by the three records of the run, so the file
  system after the run differs from the one before.
\<close>

theorem dry_run_rewrites_log_counterexample:
  "demo_fs ''video_scan.log'' = Some ''old log'' \<and>
   fs (snd (scan_videos demo_host [1, 0, 0] {} demo_fs [''a.mp4'', ''b.mp4'', ''c.mp4''] 2 True
     ''video_scan.log'')) ''video_scan.log''
     = Some (''CORRUPT'' @ [TAB] @ ''decoder error'' @ [TAB] @ ''b.mp4'' @ [NL] @
         ''OK'' @ [TAB] @ ''a.mp4'' @ [NL] @
         ''CORRUPT'' @ [TAB] @ ''timeout expired'' @ [TAB] @ ''c.mp4'' @ [NL]) \<and>
   fs (snd (scan_videos demo_host [1, 0, 0] {} demo_fs [''a.mp4'', ''b.mp4'', ''c.mp4''] 2 True
     ''video_scan.log'')) \<noteq> demo_fs"
proof -
  let ?after = "fs (snd (scan_videos demo_host [1, 0, 0] {} demo_fs
    [''a.mp4'', ''b.mp4'', ''c.mp4''] 2 True ''video_scan.log''))"
  have before: "demo_fs ''video_scan.log'' = Some ''old log''"
    by (simp add: demo_fs_def)
  have after: "?after ''video_scan.log''
     = Some (''CORRUPT'' @ [TAB] @ ''decoder error'' @ [TAB] @ ''b.mp4'' @ [NL] @
         ''OK'' @ [TAB] @ ''a.mp4'' @ [NL] @
         ''CORRUPT'' @ [TAB] @ ''timeout expired'' @ [TAB] @ ''c.mp4'' @ [NL])"
    using demo_dry_run_value(6) by (simp add: demo_dry_run_def corrupt_line_def ok_line_def)
  have differ: "?after ''video_scan.log'' \<noteq> demo_fs ''video_scan.log''"
    unfolding before after by simp
  have changed: "?after \<noteq> demo_fs"
  proof
    assume "?after = demo_fs"
    then have "?after ''video_scan.log'' = demo_fs ''video_scan.log''"
      by (rule fun_cong)
    with differ show False
      by (rule notE)
  qed
  from before after changed show ?thesis
    by (intro conjI)
qed

text \<open>
  C8, amended. In every run with \<^verbatim>\<open>dry_run\<close> set, \<^verbatim>\<open>os.remove\<close> is never called, every
  path other than \<^verbatim>\<open>log_path\<close> has after the run the content it had before, and no file
  that was there before the run is gone after it, in particular no file of the corrupt
  list. The only change to the file system is at \<^verbatim>\<open>log_path\<close>: when there is a file to
  scan and at least one worker, the file there holds the log of the run afterwards.
\<close>

theorem dry_run_keeps_files:
  assumes "scan_videos h sched locked fs0 files workers True log_path = (err, st)"
  shows "removes st = [] \<and>
         (\<forall>p. p \<noteq> log_path \<longrightarrow> fs st p = fs0 p) \<and>
         (\<forall>p. fs0 p \<noteq> None \<longrightarrow> fs st p \<noteq> None) \<and>
         (\<forall>p\<in>set (corrupted st). fs0 p \<noteq> None \<longrightarrow> fs st p \<noteq> None) \<and>
         (files \<noteq> [] \<and> 1 \<le> workers \<longrightarrow> fs st log_path = Some (concat (log st)))"
proof -
  let ?R = "scan_videos h sched locked fs0 files workers True log_path"
  from assms have st: "st = snd ?R"
    by simp
  have none: "removes st = []"
    unfolding st by (simp add: scan_videos_removes)
  have fs: "fs st p = (if p = log_path \<and> files \<noteq> [] \<and> 1 \<le> workers
      then Some (concat (log st)) else fs0 p)" for p
    using none unfolding st by (simp add: scan_videos_fs_any)
  from fs have others: "\<forall>p. p \<noteq> log_path \<longrightarrow> fs st p = fs0 p"
    by simp
  from fs have kept: "\<forall>p. fs0 p \<noteq> None \<longrightarrow> fs st p \<noteq> None"
    by simp
  then have corrupt: "\<forall>p\<in>set (corrupted st). fs0 p \<noteq> None \<longrightarrow> fs st p \<noteq> None"
    by simp
  from fs have logged: "files \<noteq> [] \<and> 1 \<le> workers \<longrightarrow> fs st log_path = Some (concat (log st))"
    by simp
  from none others kept corrupt logged show ?thesis
    by (intro conjI)
qed

theorem dry_run_keeps_files_witness:
  "removes (snd demo_dry_run) = [] \<and>
   ''b.mp4'' \<noteq> ''video_scan.log'' \<and>
   ''b.mp4'' \<in> set (corrupted (snd demo_dry_run)) \<and>
   demo_fs ''b.mp4'' \<noteq> None \<and>
   fs (snd demo_dry_run) ''b.mp4'' = demo_fs ''b.mp4'' \<and>
   fs (snd demo_dry_run) ''b.mp4'' \<noteq> None"
proof -
  have run: "scan_videos demo_host [1, 0, 0] {} demo_fs
      [''a.mp4'', ''b.mp4'', ''c.mp4''] 2 True ''video_scan.log''
      = (fst demo_dry_run, snd demo_dry_run)"
    by (simp add: demo_dry_run_def)
  have other: "''b.mp4'' \<noteq> ''video_scan.log''"
    by simp
  have corrupt: "''b.mp4'' \<in> set (corrupted (snd demo_dry_run))"
    by (simp add: demo_dry_run_value)
  have before: "demo_fs ''b.mp4'' \<noteq> None"
    by (simp add: demo_fs_def)
  note kept = dry_run_keeps_files [OF run]
  from kept have none: "removes (snd demo_dry_run) = []"
    by (elim conjE)
  from kept have "\<forall>p. p \<noteq> ''video_scan.log'' \<longrightarrow> fs (snd demo_dry_run) p = demo_fs p"
    by (elim conjE)
  from this [rule_format, OF other] have same: "fs (snd demo_dry_run) ''b.mp4'' = demo_fs ''b.mp4''" .
  from kept have "\<forall>p\<in>set (corrupted (snd demo_dry_run)).
      demo_fs p \<noteq> None \<longrightarrow> fs (snd demo_dry_run) p \<noteq> None"
    by (elim conjE)
  from this [rule_format, OF corrupt before] have there: "fs (snd demo_dry_run) ''b.mp4'' \<noteq> None" .
  from none other corrupt before same there show ?thesis
    by (intro conjI)
qed

subsection \<open>C9: the log is opened truncating, in a dry run too\<close>

text \<open>
  C9. In every run with at least one file (and a worker count the pool accepts, that is at
  least one), the log holds the records of this run only, and when the \<^verbatim>\<open>with\<close> block
  is left the file at \<^verbatim>\<open>log_path\<close> consists of exactly these records, whatever was at that
  path before. That is the final content unless the log path is itself one of the
  corrupt files that the run then removes; with \<^verbatim>\<open>dry_run\<close> set it always is.
\<close>

theorem log_truncated_and_written:
  assumes "files \<noteq> []" and "1 \<le> workers"
    and "scan_videos h sched locked fs0 files workers dry_run log_path = (err, st)"
  shows "log st = map (record_of h) (classified h sched files workers) \<and>
         fs st log_path = (if log_path \<in> set (removes st) \<and> log_path \<notin> locked then None
                           else Some (concat (log st))) \<and>
         (dry_run \<longrightarrow> fs st log_path = Some (concat (log st)))"
proof -
  let ?R = "scan_videos h sched locked fs0 files workers dry_run log_path"
  from assms(3) have st: "st = snd ?R"
    by simp
  have log: "log st = map (record_of h) (classified h sched files workers)"
    unfolding st by (simp add: scan_videos_state)
  have fs: "fs st log_path = (if log_path \<in> set (removes st) \<and> log_path \<notin> locked then None
      else Some (concat (log st)))"
    unfolding st using assms(1,2) by (simp add: scan_videos_fs)
  have "removes st = []" if dry_run
    using that unfolding st by (simp add: scan_videos_removes)
  with fs have dry: "dry_run \<longrightarrow> fs st log_path = Some (concat (log st))"
    by simp
  from log fs dry show ?thesis
    by (intro conjI)
qed

theorem log_truncated_and_written_witness:
  "[''a.mp4'', ''b.mp4'', ''c.mp4''] \<noteq> [] \<and> (1::int) \<le> 2 \<and>
   demo_fs ''video_scan.log'' = Some ''old log'' \<and>
   fs (snd demo_dry_run) ''video_scan.log'' = Some (concat (log (snd demo_dry_run))) \<and>
   concat (log (snd demo_dry_run))
     = corrupt_line ''decoder error'' ''b.mp4'' @ ok_line ''a.mp4'' @
       corrupt_line ''timeout expired'' ''c.mp4''"
proof -
  have files: "[''a.mp4'', ''b.mp4'', ''c.mp4''] \<noteq> []" and workers: "(1::int) \<le> 2"
    by simp_all
  have run: "scan_videos demo_host [1, 0, 0] {} demo_fs
      [''a.mp4'', ''b.mp4'', ''c.mp4''] 2 True ''video_scan.log''
      = (fst demo_dry_run, snd demo_dry_run)"
    by (simp add: demo_dry_run_def)
  have before: "demo_fs ''video_scan.log'' = Some ''old log''"
    by (simp add: demo_fs_def)
  have content: "concat (log (snd demo_dry_run))
     = corrupt_line ''decoder error'' ''b.mp4'' @ ok_line ''a.mp4'' @
       corrupt_line ''timeout expired'' ''c.mp4''"
    by (simp add: demo_dry_run_value)
  from log_truncated_and_written [OF files workers run]
  have "True \<longrightarrow>
      fs (snd demo_dry_run) ''video_scan.log'' = Some (concat (log (snd demo_dry_run)))"
    by (elim conjE)
  then have "fs (snd demo_dry_run) ''video_scan.log'' = Some (concat (log (snd demo_dry_run)))"
    by (rule mp) (rule TrueI)
  with files workers before content show ?thesis
    by (intro conjI)
qed

subsection \<open>C10: paths are preserved\<close>

text \<open>
  C10. \<^verbatim>\<open>check_video\<close> returns the path it was given, and in every run each path in the
  good list, in the corrupt list and among the deletion attempts is one of the files of
  the initial list, and each record in the log is the OK or the CORRUPT record of one of
  them.
\<close>

theorem paths_preserved:
  assumes "scan_videos h sched locked fs0 files workers dry_run log_path = (err, st)"
  shows "(\<forall>q c reason. check_video h p = Inr (q, c, reason) \<longrightarrow> q = p) \<and>
         set (good st) \<subseteq> set files \<and> set (corrupted st) \<subseteq> set files \<and>
         set (removes st) \<subseteq> set files \<and>
         (\<forall>l\<in>set (log st). \<exists>p\<in>set files.
            l = ok_line p \<or> (\<exists>reason. l = corrupt_line reason p))"
proof -
  let ?R = "scan_videos h sched locked fs0 files workers dry_run log_path"
  let ?done = "classified h sched files workers"
  from assms have st: "st = snd ?R"
    by simp
  have same: "\<forall>q c reason. check_video h p = Inr (q, c, reason) \<longrightarrow> q = p"
    by (auto dest: check_video_path)
  have good: "set (good st) \<subseteq> set files"
    unfolding st using set_classified [of h sched files workers]
    by (auto simp add: scan_videos_state)
  have corrupted: "set (corrupted st) \<subseteq> set files"
    unfolding st using set_classified [of h sched files workers]
    by (auto simp add: scan_videos_state)
  have "set (removes st) \<subseteq> set (corrupted st)"
    unfolding st by (auto simp add: scan_videos_removes)
  with corrupted have removes: "set (removes st) \<subseteq> set files"
    by simp
  have lines: "\<exists>p\<in>set files. l = ok_line p \<or> (\<exists>reason. l = corrupt_line reason p)"
    if "l \<in> set (log st)" for l
  proof -
    from that obtain p where p: "p \<in> set ?done" and l: "l = record_of h p"
      unfolding st by (auto simp add: scan_videos_state)
    from p set_classified [of h sched files workers] have "p \<in> set files"
      by blast
    moreover from p have "\<not> probe_raises h p"
      by (rule classified_returns)
    then have "l = ok_line p \<or> (\<exists>reason. l = corrupt_line reason p)"
      unfolding l by (rule record_shape)
    ultimately show ?thesis
      by blast
  qed
  from same good corrupted removes lines show ?thesis
    by blast
qed

theorem paths_preserved_witness:
  "check_video demo_host ''b.mp4'' = Inr (''b.mp4'', True, ''decoder error'') \<and>
   set (good (snd demo_run)) \<subseteq> set [''a.mp4'', ''b.mp4'', ''c.mp4''] \<and>
   set (corrupted (snd demo_run)) \<subseteq> set [''a.mp4'', ''b.mp4'', ''c.mp4''] \<and>
   set (removes (snd demo_run)) \<subseteq> set [''a.mp4'', ''b.mp4'', ''c.mp4''] \<and>
   ok_line ''a.mp4'' \<in> set (log (snd demo_run))"
proof -
  have run: "scan_videos demo_host [1, 0, 0] {} demo_fs
      [''a.mp4'', ''b.mp4'', ''c.mp4''] 2 False ''video_scan.log'' = (fst demo_run, snd demo_run)"
    by (simp add: demo_run_def)
  have "ok_line ''a.mp4'' \<in> set (log (snd demo_run))"
    by (simp add: demo_run_value)
  with paths_preserved [OF run] demo_probes(2) show ?thesis
    by blast
qed

end
